theory Spec2Isabelle
  imports Complex_Main "HOL-Library.Multiset"
begin

section \<open>Data model\<close>

text \<open>
  The approval engine works on rows of a relational store read and written through
  Prisma. Identifiers (UUID strings in the store) are natural numbers, timestamps are
  integers (milliseconds since the epoch, as \<open>Date.getTime()\<close> gives them), amounts
  are rationals, and a nullable column is an \<open>option\<close>. Status values and role codes
  stay the strings the JavaScript compares. A table is a list of rows in the order
  the store returns them; \<open>findFirst\<close> is \<open>find\<close>, \<open>findMany\<close> is \<open>filter\<close>, and
  \<open>orderBy ... asc\<close> is the stable \<open>sort_key\<close>.
\<close>

record user =
  u_id :: nat
  u_role_id :: "nat option"
  u_manager_id :: "nat option"
  u_is_active :: bool
  u_deleted_at :: "int option"

record role =
  r_id :: nat
  r_code :: string
  r_is_active :: bool

record approval_matrix =
  m_doc_type :: string
  m_project_id :: "nat option"
  m_min_amount :: "rat option"
  m_max_amount :: "rat option"
  m_department :: "string option"
  m_role_id :: "nat option"
  m_step_order :: int
  m_escalation_hours :: "int option"

record approval_request =
  q_id :: nat
  q_doc_type :: string
  q_doc_id :: string
  q_project_id :: "nat option"
  q_requested_by :: nat
  q_current_status :: string
  q_total_steps :: nat
  q_current_step :: int
  q_amount :: rat
  q_department :: "string option"
  q_is_completed :: bool
  q_completed_at :: "int option"
  q_created_at :: "int option"

record approval_step =
  s_id :: nat
  s_approval_request_id :: nat
  s_step_order :: int
  s_role_id :: "nat option"
  s_approver_user :: "nat option"
  s_status :: string
  s_action :: "string option"
  s_remarks :: "string option"
  s_approved_at :: "int option"
  s_escalated :: bool
  s_escalated_to :: "nat option"

record approval_delegation =
  d_id :: nat
  d_from_user :: nat
  d_to_user :: nat
  d_start_date :: int
  d_end_date :: int
  d_is_active :: bool

record db =
  db_users :: "user list"
  db_roles :: "role list"
  db_matrices :: "approval_matrix list"
  db_requests :: "approval_request list"
  db_steps :: "approval_step list"
  db_delegations :: "approval_delegation list"

text \<open>\<open>createAppError(message, statusCode)\<close>: the error value every service function
  throws; only the HTTP status code is kept.\<close>

datatype app_error = AppError nat

text \<open>JavaScript truthiness of a nullable string: \<open>null\<close>, \<open>undefined\<close> and the empty
  string are falsy. \<open>x || null\<close> keeps a truthy string and turns the rest into null.\<close>

definition truthy :: "string option \<Rightarrow> bool" where
  "truthy x = (case x of None \<Rightarrow> False | Some s \<Rightarrow> s \<noteq> [])"

definition or_null :: "string option \<Rightarrow> string option" where
  "or_null x = (if truthy x then x else None)"

section \<open>Matrix resolver (approvals.repository: findMatrices)\<close>

definition amount_in_range :: "rat \<Rightarrow> approval_matrix \<Rightarrow> bool" where
  "amount_in_range amount m =
     ((case m_min_amount m of None \<Rightarrow> True | Some lo \<Rightarrow> lo \<le> amount) \<and>
      (case m_max_amount m of None \<Rightarrow> True | Some hi \<Rightarrow> amount \<le> hi))"

definition department_matches :: "string option \<Rightarrow> approval_matrix \<Rightarrow> bool" where
  "department_matches department m =
     (if truthy department
      then m_department m = None \<or> m_department m = department
      else True)"

definition baseWhere :: "string \<Rightarrow> rat \<Rightarrow> string option \<Rightarrow> approval_matrix \<Rightarrow> bool" where
  "baseWhere docType amount department m =
     (m_doc_type m = docType \<and> amount_in_range amount m \<and> department_matches department m)"

definition findMatrices ::
  "db \<Rightarrow> string \<Rightarrow> nat option \<Rightarrow> rat \<Rightarrow> string option \<Rightarrow> approval_matrix list" where
  "findMatrices d docType projectId amount department =
     (let matrices = sort_key m_step_order
            (filter (\<lambda>m. baseWhere docType amount department m \<and> m_project_id m = projectId)
               (db_matrices d))
      in if matrices = []
         then sort_key m_step_order
            (filter (\<lambda>m. baseWhere docType amount department m \<and> m_project_id m = None)
               (db_matrices d))
         else matrices)"

section \<open>Repository queries (approvals.repository)\<close>

definition findActiveRequest :: "db \<Rightarrow> string \<Rightarrow> string \<Rightarrow> approval_request option" where
  "findActiveRequest d docType docId =
     find (\<lambda>q. q_doc_type q = docType \<and> q_doc_id q = docId \<and>
                (q_current_status q = ''pending'' \<or> q_current_status q = ''in_progress''))
       (db_requests d)"

text \<open>\<open>findRequestById\<close> returns the request with its steps included, ordered by
  step order; here as a pair.\<close>

definition findRequestById :: "db \<Rightarrow> nat \<Rightarrow> (approval_request \<times> approval_step list) option" where
  "findRequestById d approvalRequestId =
     (case find (\<lambda>q. q_id q = approvalRequestId) (db_requests d) of
        None \<Rightarrow> None
      | Some q \<Rightarrow>
          Some (q, sort_key s_step_order
                     (filter (\<lambda>s. s_approval_request_id s = q_id q) (db_steps d))))"

definition findRequestWithSteps :: "db \<Rightarrow> nat \<Rightarrow> (approval_request \<times> approval_step list) option" where
  "findRequestWithSteps d approvalRequestId = findRequestById d approvalRequestId"

definition findNextStepOrder :: "db \<Rightarrow> nat \<Rightarrow> int \<Rightarrow> int option" where
  "findNextStepOrder d approvalRequestId currentStepOrder =
     (case sort_key s_step_order
             (filter (\<lambda>s. s_approval_request_id s = approvalRequestId \<and>
                          currentStepOrder < s_step_order s \<and> s_status s = ''pending'')
                (db_steps d)) of
        [] \<Rightarrow> None
      | nxt # _ \<Rightarrow> Some (s_step_order nxt))"

definition findPendingDelegation :: "db \<Rightarrow> nat \<Rightarrow> int \<Rightarrow> approval_delegation option" where
  "findPendingDelegation d userId now =
     find (\<lambda>g. d_from_user g = userId \<and> d_is_active g \<and>
                d_start_date g \<le> now \<and> now \<le> d_end_date g)
       (db_delegations d)"

definition findDelegationsForInbox :: "db \<Rightarrow> nat \<Rightarrow> int \<Rightarrow> approval_delegation list" where
  "findDelegationsForInbox d toUserId now =
     filter (\<lambda>g. d_to_user g = toUserId \<and> d_is_active g \<and>
                  d_start_date g \<le> now \<and> now \<le> d_end_date g)
       (db_delegations d)"

definition findUserById :: "db \<Rightarrow> nat \<Rightarrow> user option" where
  "findUserById d userId =
     find (\<lambda>u. u_id u = userId \<and> u_deleted_at u = None \<and> u_is_active u) (db_users d)"

definition findUsersByRole :: "db \<Rightarrow> nat \<Rightarrow> user list" where
  "findUsersByRole d role_id =
     filter (\<lambda>u. u_role_id u = Some role_id \<and> u_is_active u \<and> u_deleted_at u = None)
       (db_users d)"

text \<open>The \<open>roles\<close> relation Prisma includes with a user: the role row of the user's
  \<open>role_id\<close>, and its code (\<open>user.roles?.code\<close>), null when there is none.\<close>

definition roles_of :: "db \<Rightarrow> user \<Rightarrow> role option" where
  "roles_of d u =
     (case u_role_id u of
        None \<Rightarrow> None
      | Some rid \<Rightarrow> find (\<lambda>r. r_id r = rid) (db_roles d))"

definition roles_code :: "db \<Rightarrow> user \<Rightarrow> string option" where
  "roles_code d u = map_option r_code (roles_of d u)"

text \<open>Identifiers the store generates for new rows: any identifier not in use; the
  model takes the successor of the largest one.\<close>

definition next_id :: "nat list \<Rightarrow> nat" where
  "next_id ids = Suc (fold max ids 0)"

section \<open>Approver resolver (approvals.service: resolveApprover)\<close>

text \<open>The \<open>for\<close> loop over the candidates; the result is \<open>{userId, delegated}\<close> or null.\<close>

fun resolve_candidates :: "db \<Rightarrow> int \<Rightarrow> nat \<Rightarrow> user list \<Rightarrow> (nat \<times> bool) option" where
  "resolve_candidates d now requestedBy [] = None"
| "resolve_candidates d now requestedBy (u # us) =
     (if u_id u = requestedBy \<and> roles_code d u \<noteq> Some ''super_admin''
      then resolve_candidates d now requestedBy us
      else (case findPendingDelegation d (u_id u) now of
              Some delegation \<Rightarrow>
                (if d_to_user delegation \<noteq> requestedBy
                 then Some (d_to_user delegation, True)
                 else resolve_candidates d now requestedBy us)
            | None \<Rightarrow> Some (u_id u, False)))"

definition resolveApprover :: "db \<Rightarrow> int \<Rightarrow> nat option \<Rightarrow> nat \<Rightarrow> (nat \<times> bool) option" where
  "resolveApprover d now roleId requestedBy =
     (case roleId of
        None \<Rightarrow> None
      | Some rid \<Rightarrow> resolve_candidates d now requestedBy (findUsersByRole d rid))"

section \<open>Request orchestrator (approvals.service)\<close>

subsection \<open>requestApproval\<close>

record submission =
  sub_docType :: string
  sub_docId :: string
  sub_projectId :: "nat option"
  sub_amount :: rat
  sub_department :: "string option"

record request_result =
  rr_approvalRequestId :: nat
  rr_currentStatus :: string
  rr_totalSteps :: nat
  rr_currentStep :: int

definition uniqueStepOrders :: "approval_matrix list \<Rightarrow> int list" where
  "uniqueStepOrders matrices = sort (remdups (map m_step_order matrices))"

text \<open>One step insert per matrix row; \<open>createMany\<close> gives the rows consecutive fresh
  identifiers.\<close>

definition stepInsert :: "db \<Rightarrow> int \<Rightarrow> nat \<Rightarrow> nat \<Rightarrow> nat \<Rightarrow> approval_matrix \<Rightarrow> approval_step" where
  "stepInsert d now actorId reqId sid matrix =
     \<lparr> s_id = sid,
       s_approval_request_id = reqId,
       s_step_order = m_step_order matrix,
       s_role_id = m_role_id matrix,
       s_approver_user = map_option fst (resolveApprover d now (m_role_id matrix) actorId),
       s_status = ''pending'',
       s_action = None,
       s_remarks = None,
       s_approved_at = None,
       s_escalated = False,
       s_escalated_to = None \<rparr>"

definition stepInserts :: "db \<Rightarrow> int \<Rightarrow> nat \<Rightarrow> nat \<Rightarrow> approval_matrix list \<Rightarrow> approval_step list" where
  "stepInserts d now actorId reqId matrices =
     map (\<lambda>(i, matrix). stepInsert d now actorId reqId (next_id (map s_id (db_steps d)) + i) matrix)
       (enumerate 0 matrices)"

definition requestApproval ::
  "db \<Rightarrow> int \<Rightarrow> submission \<Rightarrow> nat \<Rightarrow> app_error + (db \<times> request_result)" where
  "requestApproval d now data actorId =
     (case findActiveRequest d (sub_docType data) (sub_docId data) of
        Some existingRequest \<Rightarrow> Inl (AppError 409)
      | None \<Rightarrow>
          (let matrices = findMatrices d (sub_docType data) (sub_projectId data)
                            (sub_amount data) (sub_department data)
           in if matrices = [] then Inl (AppError 422)
              else
                (let orders = uniqueStepOrders matrices;
                     firstStepOrder = hd orders;
                     req = \<lparr> q_id = next_id (map q_id (db_requests d)),
                             q_doc_type = sub_docType data,
                             q_doc_id = sub_docId data,
                             q_project_id = sub_projectId data,
                             q_requested_by = actorId,
                             q_current_status = ''in_progress'',
                             q_total_steps = length orders,
                             q_current_step = firstStepOrder,
                             q_amount = sub_amount data,
                             q_department = or_null (sub_department data),
                             q_is_completed = False,
                             q_completed_at = None,
                             q_created_at = Some now \<rparr>;
                     d' = d\<lparr> db_requests := db_requests d @ [req],
                             db_steps := db_steps d @ stepInserts d now actorId (q_id req) matrices \<rparr>
                 in Inr (d', \<lparr> rr_approvalRequestId = q_id req,
                               rr_currentStatus = q_current_status req,
                               rr_totalSteps = q_total_steps req,
                               rr_currentStep = q_current_step req \<rparr>))))"

subsection \<open>approveStep\<close>

record approve_result =
  ar_approvalRequestId :: nat
  ar_currentStatus :: string
  ar_currentStep :: "int option"
  ar_note :: "string option"

definition isAdmin :: "db \<Rightarrow> user \<Rightarrow> bool" where
  "isAdmin d actor =
     (roles_code d actor = Some ''super_admin'' \<or> roles_code d actor = Some ''erp_admin'')"

definition delegatorIds :: "db \<Rightarrow> nat \<Rightarrow> int \<Rightarrow> nat list" where
  "delegatorIds d actorId now = map d_from_user (findDelegationsForInbox d actorId now)"

text \<open>The filter that selects the steps the actor can approve (\<open>actableSteps\<close>).\<close>

definition approve_actable ::
  "db \<Rightarrow> user \<Rightarrow> nat \<Rightarrow> nat list \<Rightarrow> approval_request \<Rightarrow> approval_step \<Rightarrow> bool" where
  "approve_actable d actor actorId dIds request s =
     (if s_step_order s \<noteq> q_current_step request then False
      else if s_status s \<noteq> ''pending'' then False
      else if isAdmin d actor then True
      else (s_approver_user s = Some actorId \<or>
            s_role_id s = u_role_id actor \<or>
            (case s_approver_user s of None \<Rightarrow> False | Some a \<Rightarrow> a \<in> set dIds)))"

definition approve_alreadyDone :: "user \<Rightarrow> nat \<Rightarrow> approval_request \<Rightarrow> approval_step \<Rightarrow> bool" where
  "approve_alreadyDone actor actorId request s =
     (s_step_order s = q_current_step request \<and>
      (s_approver_user s = Some actorId \<or> s_role_id s = u_role_id actor) \<and>
      s_status s = ''approved'')"

text \<open>\<open>tx.approvalStep.update({ where: { id }, data })\<close> of the approve transaction:
  the data written, and the update of the row with the identifier.\<close>

definition approve_data :: "int \<Rightarrow> string option \<Rightarrow> nat \<Rightarrow> approval_step \<Rightarrow> approval_step" where
  "approve_data now remarks actorId s =
     s\<lparr> s_status := ''approved'',
        s_action := Some ''approve'',
        s_remarks := or_null remarks,
        s_approved_at := Some now,
        s_approver_user := Some actorId \<rparr>"

definition approve_update ::
  "int \<Rightarrow> string option \<Rightarrow> nat \<Rightarrow> nat \<Rightarrow> approval_step list \<Rightarrow> approval_step list" where
  "approve_update now remarks actorId sid steps =
     map (\<lambda>s. if s_id s = sid then approve_data now remarks actorId s else s) steps"

definition update_request ::
  "nat \<Rightarrow> (approval_request \<Rightarrow> approval_request) \<Rightarrow> approval_request list \<Rightarrow> approval_request list" where
  "update_request rid f requests = map (\<lambda>q. if q_id q = rid then f q else q) requests"

text \<open>The steps of the current order that the actor did not act on and that are
  still pending (\<open>stillPending\<close> in the transaction).\<close>

definition stillPending ::
  "approval_request \<Rightarrow> approval_step list \<Rightarrow> approval_step list \<Rightarrow> approval_step list" where
  "stillPending request approval_steps actableSteps =
     (let allStepsAtCurrentOrder =
            filter (\<lambda>s. s_step_order s = q_current_step request) approval_steps
      in filter (\<lambda>s. find (\<lambda>a. s_id a = s_id s) actableSteps = None \<and>
                      s_status s = ''pending'')
           allStepsAtCurrentOrder)"

text \<open>The body of \<open>prisma.$transaction\<close> in \<open>approveStep\<close>: approve each actable step,
  then stay, advance or complete. \<open>request\<close> and \<open>approval_steps\<close> are the rows read
  before the transaction. \<open>findNextStepOrder\<close> is called on the global client, not on
  the transaction handle, so it reads the steps as they were before the transaction's
  updates.\<close>

definition approve_transaction ::
  "db \<Rightarrow> int \<Rightarrow> nat \<Rightarrow> nat \<Rightarrow> string option \<Rightarrow> approval_request \<Rightarrow> approval_step list
     \<Rightarrow> approval_step list \<Rightarrow> db \<times> approve_result" where
  "approve_transaction d now approvalRequestId actorId remarks request approval_steps actableSteps =
     (let steps' = fold (\<lambda>step. approve_update now remarks actorId (s_id step))
                     actableSteps (db_steps d)
      in if stillPending request approval_steps actableSteps \<noteq> []
         then (d\<lparr> db_steps := steps' \<rparr>,
               \<lparr> ar_approvalRequestId = approvalRequestId,
                 ar_currentStatus = q_current_status request,
                 ar_currentStep = Some (q_current_step request),
                 ar_note = None \<rparr>)
         else
           (case findNextStepOrder d approvalRequestId (q_current_step request) of
              Some nextStepOrder \<Rightarrow>
                (d\<lparr> db_steps := steps',
                    db_requests := update_request approvalRequestId
                       (\<lambda>q. q\<lparr> q_current_step := nextStepOrder \<rparr>)
                       (db_requests d) \<rparr>,
                 \<lparr> ar_approvalRequestId = approvalRequestId,
                   ar_currentStatus = q_current_status request,
                   ar_currentStep = Some nextStepOrder,
                   ar_note = None \<rparr>)
            | None \<Rightarrow>
                (d\<lparr> db_steps := steps',
                    db_requests := update_request approvalRequestId
                       (\<lambda>q. q\<lparr> q_current_status := ''approved'',
                                q_is_completed := True,
                                q_completed_at := Some now \<rparr>)
                       (db_requests d) \<rparr>,
                 \<lparr> ar_approvalRequestId = approvalRequestId,
                   ar_currentStatus = ''approved'',
                   ar_currentStep = None,
                   ar_note = None \<rparr>)))"

definition approveStep ::
  "db \<Rightarrow> int \<Rightarrow> nat \<Rightarrow> nat \<Rightarrow> string option \<Rightarrow> app_error + (db \<times> approve_result)" where
  "approveStep d now approvalRequestId actorId remarks =
     (case findUserById d actorId of
        None \<Rightarrow> Inl (AppError 404)
      | Some actor \<Rightarrow>
     (case findRequestWithSteps d approvalRequestId of
        None \<Rightarrow> Inl (AppError 404)
      | Some (request, approval_steps) \<Rightarrow>
          if q_current_status request \<noteq> ''in_progress'' then Inl (AppError 409)
          else if q_requested_by request = actorId \<and> \<not> isAdmin d actor then Inl (AppError 403)
          else
            (let dIds = delegatorIds d actorId now;
                 actableSteps = filter (approve_actable d actor actorId dIds request) approval_steps
             in if actableSteps = []
                then (case find (approve_alreadyDone actor actorId request) approval_steps of
                        Some alreadyDone \<Rightarrow>
                          Inr (d, \<lparr> ar_approvalRequestId = approvalRequestId,
                                    ar_currentStatus = q_current_status request,
                                    ar_currentStep = Some (q_current_step request),
                                    ar_note = Some ''Already approved at this step'' \<rparr>)
                      | None \<Rightarrow> Inl (AppError 403))
                else Inr (approve_transaction d now approvalRequestId actorId remarks
                            request approval_steps actableSteps))))"

text \<open>
  The reads of \<open>approveStep\<close> are made before \<open>prisma.$transaction\<close> is entered, on
  the global client: the actor, the request with its steps, the delegations, the
  guards and the choice of the actable steps. \<open>approve_read\<close> is that part alone. It
  ends with the error thrown, with the answer of the already-approved branch, or
  with the rows the transaction is then run with. \<open>approveStep\<close> is \<open>approve_read\<close>
  followed at once by \<open>approve_transaction\<close> on the store that was read. When another
  call commits between the two, the transaction runs on the store that call left,
  with the rows read before: its step updates go to the rows by identifier, and its
  test for steps still pending looks only at the rows read before.
\<close>

datatype approve_plan =
    Answer_already_done approve_result
  | Run_transaction approval_request "approval_step list" "approval_step list"

definition approve_read :: "db \<Rightarrow> int \<Rightarrow> nat \<Rightarrow> nat \<Rightarrow> app_error + approve_plan" where
  "approve_read d now approvalRequestId actorId =
     (case findUserById d actorId of
        None \<Rightarrow> Inl (AppError 404)
      | Some actor \<Rightarrow>
     (case findRequestWithSteps d approvalRequestId of
        None \<Rightarrow> Inl (AppError 404)
      | Some (request, approval_steps) \<Rightarrow>
          if q_current_status request \<noteq> ''in_progress'' then Inl (AppError 409)
          else if q_requested_by request = actorId \<and> \<not> isAdmin d actor then Inl (AppError 403)
          else
            (let dIds = delegatorIds d actorId now;
                 actableSteps = filter (approve_actable d actor actorId dIds request) approval_steps
             in if actableSteps = []
                then (case find (approve_alreadyDone actor actorId request) approval_steps of
                        Some alreadyDone \<Rightarrow>
                          Inr (Answer_already_done
                                 \<lparr> ar_approvalRequestId = approvalRequestId,
                                   ar_currentStatus = q_current_status request,
                                   ar_currentStep = Some (q_current_step request),
                                   ar_note = Some ''Already approved at this step'' \<rparr>)
                      | None \<Rightarrow> Inl (AppError 403))
                else Inr (Run_transaction request approval_steps actableSteps))))"

subsection \<open>rejectStep\<close>

record status_result =
  sr_approvalRequestId :: nat
  sr_currentStatus :: string

text \<open>The predicate of \<open>request.approval_steps.find\<close> in \<open>rejectStep\<close>.\<close>

definition reject_actable :: "db \<Rightarrow> user \<Rightarrow> nat \<Rightarrow> approval_request \<Rightarrow> approval_step \<Rightarrow> bool" where
  "reject_actable d actor actorId request s =
     (if s_step_order s \<noteq> q_current_step request then False
      else if s_status s \<noteq> ''pending'' then False
      else if isAdmin d actor then True
      else (s_approver_user s = Some actorId \<or> s_role_id s = u_role_id actor))"

definition reject_data :: "int \<Rightarrow> string option \<Rightarrow> nat \<Rightarrow> approval_step \<Rightarrow> approval_step" where
  "reject_data now remarks actorId s =
     s\<lparr> s_status := ''rejected'',
        s_action := Some ''reject'',
        s_remarks := or_null remarks,
        s_approved_at := Some now,
        s_approver_user := Some actorId \<rparr>"

definition reject_update ::
  "int \<Rightarrow> string option \<Rightarrow> nat \<Rightarrow> nat \<Rightarrow> approval_step list \<Rightarrow> approval_step list" where
  "reject_update now remarks actorId sid steps =
     map (\<lambda>s. if s_id s = sid then reject_data now remarks actorId s else s) steps"

text \<open>\<open>updateMany({ where: { approval_request_id, status: "pending" },
  data: { status: "skipped" } })\<close>.\<close>

definition skip_pending :: "nat \<Rightarrow> approval_step list \<Rightarrow> approval_step list" where
  "skip_pending approvalRequestId steps =
     map (\<lambda>s. if s_approval_request_id s = approvalRequestId \<and> s_status s = ''pending''
               then s\<lparr> s_status := ''skipped'' \<rparr>
               else s) steps"

definition rejectStep ::
  "db \<Rightarrow> int \<Rightarrow> nat \<Rightarrow> nat \<Rightarrow> string option \<Rightarrow> app_error + (db \<times> status_result)" where
  "rejectStep d now approvalRequestId actorId remarks =
     (case findUserById d actorId of
        None \<Rightarrow> Inl (AppError 404)
      | Some actor \<Rightarrow>
     (case findRequestWithSteps d approvalRequestId of
        None \<Rightarrow> Inl (AppError 404)
      | Some (request, approval_steps) \<Rightarrow>
          if q_current_status request \<noteq> ''in_progress'' then Inl (AppError 409)
          else
            (case find (reject_actable d actor actorId request) approval_steps of
               None \<Rightarrow> Inl (AppError 403)
             | Some actableStep \<Rightarrow>
                 Inr (d\<lparr> db_steps := skip_pending approvalRequestId
                                        (reject_update now remarks actorId (s_id actableStep)
                                           (db_steps d)),
                         db_requests := update_request approvalRequestId
                            (\<lambda>q. q\<lparr> q_current_status := ''rejected'',
                                     q_is_completed := True,
                                     q_completed_at := Some now \<rparr>)
                            (db_requests d) \<rparr>,
                      \<lparr> sr_approvalRequestId = approvalRequestId,
                        sr_currentStatus = ''rejected'' \<rparr>))))"

subsection \<open>cancelApproval\<close>

definition cancelApproval ::
  "db \<Rightarrow> int \<Rightarrow> nat \<Rightarrow> nat \<Rightarrow> app_error + (db \<times> status_result)" where
  "cancelApproval d now approvalRequestId actorId =
     (case findUserById d actorId of
        None \<Rightarrow> Inl (AppError 404)
      | Some actor \<Rightarrow>
     (case findRequestById d approvalRequestId of
        None \<Rightarrow> Inl (AppError 404)
      | Some (request, approval_steps) \<Rightarrow>
          if q_current_status request \<noteq> ''in_progress'' then Inl (AppError 409)
          else
            (let isRequester = (q_requested_by request = actorId);
                 isAdmin = (roles_code d actor = Some ''SUPER_ADMIN'')
             in if \<not> isRequester \<and> \<not> isAdmin then Inl (AppError 403)
                else
                  Inr (d\<lparr> db_requests := update_request approvalRequestId
                             (\<lambda>q. q\<lparr> q_current_status := ''cancelled'',
                                      q_is_completed := True,
                                      q_completed_at := Some now \<rparr>)
                             (db_requests d),
                          db_steps := skip_pending approvalRequestId (db_steps d) \<rparr>,
                       \<lparr> sr_approvalRequestId = approvalRequestId,
                         sr_currentStatus = ''cancelled'' \<rparr>))))"

section \<open>Escalation worker (escalation.service)\<close>

definition resolveEscalationFallback :: "db \<Rightarrow> nat option" where
  "resolveEscalationFallback d =
     (case find (\<lambda>r. r_code r = ''SUPER_ADMIN'' \<and> r_is_active r) (db_roles d) of
        None \<Rightarrow> None
      | Some adminRole \<Rightarrow>
          map_option u_id
            (find (\<lambda>u. u_role_id u = Some (r_id adminRole) \<and> u_is_active u \<and> u_deleted_at u = None)
               (db_users d)))"

definition resolveEscalationTarget :: "db \<Rightarrow> nat option \<Rightarrow> nat option" where
  "resolveEscalationTarget d approverUserId =
     (case approverUserId of
        None \<Rightarrow> resolveEscalationFallback d
      | Some a \<Rightarrow>
          (case find (\<lambda>u. u_id u = a \<and> u_deleted_at u = None) (db_users d) of
             None \<Rightarrow> resolveEscalationFallback d
           | Some approver \<Rightarrow>
               (case u_manager_id approver of
                  None \<Rightarrow> resolveEscalationFallback d
                | Some mid \<Rightarrow>
                    (case find (\<lambda>u. u_id u = mid \<and> u_is_active u \<and> u_deleted_at u = None)
                            (db_users d) of
                       Some manager \<Rightarrow> Some (u_id manager)
                     | None \<Rightarrow> resolveEscalationFallback d))))"

text \<open>The parent request Prisma includes with a step (\<open>step.approval_requests\<close>).\<close>

definition step_request :: "db \<Rightarrow> approval_step \<Rightarrow> approval_request option" where
  "step_request d s = find (\<lambda>q. q_id q = s_approval_request_id s) (db_requests d)"

definition activePending :: "db \<Rightarrow> approval_step list" where
  "activePending d =
     filter (\<lambda>s. map_option q_current_status (step_request d s) = Some ''in_progress'')
       (filter (\<lambda>s. s_status s = ''pending'' \<and> \<not> s_escalated s) (db_steps d))"

text \<open>The matrix row the worker reads the SLA from: the first row of the request's
  document type and the step's order that has \<open>escalation_hours\<close> set.\<close>

definition escalation_matrix :: "db \<Rightarrow> approval_request \<Rightarrow> approval_step \<Rightarrow> approval_matrix option" where
  "escalation_matrix d request step =
     find (\<lambda>m. m_doc_type m = q_doc_type request \<and> m_step_order m = s_step_order step \<and>
                m_escalation_hours m \<noteq> None)
       (db_matrices d)"

text \<open>What one iteration of the loop decides for a step once the request's creation
  time is known, reading the store: continue (nothing to do), or escalate to a target.
  \<open>!matrix?.escalation_hours\<close> is true for a missing row and for an SLA of 0. The age
  in hours is the exact quotient.\<close>

datatype escalation_decision = Continue | Escalate "nat option"

definition escalation_decide ::
  "db \<Rightarrow> int \<Rightarrow> approval_request \<Rightarrow> int \<Rightarrow> approval_step \<Rightarrow> escalation_decision" where
  "escalation_decide d now request created_at step =
     (case escalation_matrix d request step of
        None \<Rightarrow> Continue
      | Some matrix \<Rightarrow>
          (case m_escalation_hours matrix of
             None \<Rightarrow> Continue
           | Some hours \<Rightarrow>
               if hours = 0 then Continue
               else
                 (let ageMs = now - created_at;
                      ageHours = (of_int ageMs :: rat) / (1000 * 60 * 60)
                  in if ageHours < of_int hours then Continue
                     else Escalate (resolveEscalationTarget d (s_approver_user step)))))"

definition escalate_update :: "nat \<Rightarrow> nat option \<Rightarrow> approval_step list \<Rightarrow> approval_step list" where
  "escalate_update sid escalatedTo steps =
     map (\<lambda>s. if s_id s = sid
               then s\<lparr> s_escalated := True, s_escalated_to := escalatedTo \<rparr>
               else s) steps"

record escalation_run =
  er_db :: db
  er_escalatedCount :: nat
  er_errorCount :: nat

text \<open>The body of the loop with its \<open>try/catch\<close>. Whether a store call fails while a
  step is processed is not decided by the program: \<open>throws\<close> says for which steps it
  does (a step whose request has no creation time is left before any store call). A
  failing step is counted and leaves the store as it was.\<close>

definition escalation_iteration ::
  "(nat \<Rightarrow> bool) \<Rightarrow> int \<Rightarrow> escalation_run \<Rightarrow> approval_step \<Rightarrow> escalation_run" where
  "escalation_iteration throws now run step =
     (case step_request (er_db run) step of
        None \<Rightarrow> run
      | Some request \<Rightarrow>
          (case q_created_at request of
             None \<Rightarrow> run
           | Some created_at \<Rightarrow>
               if throws (s_id step) then run\<lparr> er_errorCount := Suc (er_errorCount run) \<rparr>
               else (case escalation_decide (er_db run) now request created_at step of
                       Continue \<Rightarrow> run
                     | Escalate escalatedTo \<Rightarrow>
                         run\<lparr> er_db := (er_db run)\<lparr> db_steps :=
                                   escalate_update (s_id step) escalatedTo (db_steps (er_db run)) \<rparr>,
                              er_escalatedCount := Suc (er_escalatedCount run) \<rparr>)))"

definition runEscalation :: "(nat \<Rightarrow> bool) \<Rightarrow> db \<Rightarrow> int \<Rightarrow> escalation_run" where
  "runEscalation throws d now =
     foldl (escalation_iteration throws now)
       \<lparr> er_db = d, er_escalatedCount = 0, er_errorCount = 0 \<rparr>
       (activePending d)"

section \<open>Delegations (delegations.service: createDelegation)\<close>

record delegation_input =
  di_fromUser :: nat
  di_toUser :: nat
  di_startDate :: int
  di_endDate :: int

definition createDelegation ::
  "db \<Rightarrow> int \<Rightarrow> delegation_input \<Rightarrow> app_error + (db \<times> approval_delegation)" where
  "createDelegation d now inp =
     (if di_fromUser inp = di_toUser inp then Inl (AppError 400)
      else if findUserById d (di_fromUser inp) = None then Inl (AppError 404)
      else if findUserById d (di_toUser inp) = None then Inl (AppError 404)
      else
        (case find (\<lambda>g. d_from_user g = di_toUser inp \<and> d_to_user g = di_fromUser inp \<and>
                         d_is_active g \<and> now \<le> d_end_date g)
                (db_delegations d) of
           Some circular \<Rightarrow> Inl (AppError 409)
         | None \<Rightarrow>
             (case find (\<lambda>g. d_from_user g = di_fromUser inp \<and> d_is_active g \<and>
                              d_start_date g \<le> di_endDate inp \<and>
                              di_startDate inp \<le> d_end_date g)
                     (db_delegations d) of
                Some overlap \<Rightarrow> Inl (AppError 409)
              | None \<Rightarrow>
                  (let delegation =
                         \<lparr> d_id = next_id (map d_id (db_delegations d)),
                           d_from_user = di_fromUser inp,
                           d_to_user = di_toUser inp,
                           d_start_date = di_startDate inp,
                           d_end_date = di_endDate inp,
                           d_is_active = True \<rparr>
                   in Inr (d\<lparr> db_delegations := db_delegations d @ [delegation] \<rparr>,
                           delegation)))))"

section \<open>Idempotency guard (idempotency.service, idempotency.middleware)\<close>

text \<open>
  A JSON value as a response body carries it; \<open>if (cached)\<close> tests its JavaScript
  truthiness. A request body is carried as the text \<open>JSON.stringify\<close> gives for it,
  \<open>None\<close> when the body is null or undefined. The digest of Node's \<open>crypto\<close> module
  (\<open>createHash("sha256").update(s).digest("hex")\<close>) is not code of the repository:
  the guard takes it as the parameter \<open>digest\<close>.
\<close>

datatype json_value =
    JNull
  | JBool bool
  | JNumber rat
  | JString string
  | JArray "json_value list"
  | JObject "(string \<times> json_value) list"

fun js_truthy :: "json_value \<Rightarrow> bool" where
  "js_truthy JNull = False"
| "js_truthy (JBool b) = b"
| "js_truthy (JNumber n) = (n \<noteq> 0)"
| "js_truthy (JString s) = (s \<noteq> [])"
| "js_truthy (JArray xs) = True"
| "js_truthy (JObject kvs) = True"

record idempotency_key =
  ik_key :: string
  ik_user_id :: "nat option"
  ik_route :: string
  ik_request_hash :: string
  ik_response_body :: json_value
  ik_expires_at :: int

definition hashBody :: "(string \<Rightarrow> string) \<Rightarrow> string option \<Rightarrow> string" where
  "hashBody digest body =
     take 64 (digest (case body of None \<Rightarrow> ''{}'' | Some s \<Rightarrow> s))"

record check_result =
  cr_conflict :: bool
  cr_cached :: json_value

text \<open>\<open>checkIdempotency\<close> returns its verdict and leaves the table with an expired key
  deleted. \<open>fails\<close> says that a store call throws, which the \<open>catch\<close> answers by
  failing open. \<open>userId\<close> and \<open>route\<close> are parameters the body never reads.\<close>

definition checkIdempotency ::
  "bool \<Rightarrow> idempotency_key list \<Rightarrow> int \<Rightarrow> string \<Rightarrow> nat option \<Rightarrow> string \<Rightarrow> string
     \<Rightarrow> idempotency_key list \<times> check_result" where
  "checkIdempotency fails keys now key userId route requestHash =
     (if fails then (keys, \<lparr> cr_conflict = False, cr_cached = JNull \<rparr>)
      else (case find (\<lambda>k. ik_key k = key) keys of
              None \<Rightarrow> (keys, \<lparr> cr_conflict = False, cr_cached = JNull \<rparr>)
            | Some existing \<Rightarrow>
                if ik_expires_at existing < now
                then (filter (\<lambda>k. ik_key k \<noteq> key) keys,
                      \<lparr> cr_conflict = False, cr_cached = JNull \<rparr>)
                else if ik_request_hash existing = requestHash
                then (keys, \<lparr> cr_conflict = False, cr_cached = ik_response_body existing \<rparr>)
                else (keys, \<lparr> cr_conflict = True, cr_cached = JNull \<rparr>)))"

text \<open>\<open>saveIdempotency\<close>: an upsert by key (create the row, or update only the response
  body of the row that exists), with the default time to live of 1440 minutes.\<close>

definition saveIdempotency ::
  "idempotency_key list \<Rightarrow> int \<Rightarrow> string \<Rightarrow> nat option \<Rightarrow> string \<Rightarrow> string \<Rightarrow> json_value
     \<Rightarrow> idempotency_key list" where
  "saveIdempotency keys now key userId route requestHash responseBody =
     (if find (\<lambda>k. ik_key k = key) keys = None
      then keys @ [\<lparr> ik_key = key, ik_user_id = userId, ik_route = route,
                      ik_request_hash = requestHash, ik_response_body = responseBody,
                      ik_expires_at = now + 1440 * 60 * 1000 \<rparr>]
      else map (\<lambda>k. if ik_key k = key then k\<lparr> ik_response_body := responseBody \<rparr> else k) keys)"

text \<open>
  The middleware \<open>idempotent()\<close> decides one of four things: call \<open>next()\<close> at once
  (no key), answer 409, answer 200 with the cached body, or call \<open>next()\<close> with
  \<open>res.json\<close> wrapped so that a 2xx response is saved under the key and the hash.
\<close>

datatype guard_verdict =
    Next_plain
  | Respond_conflict
  | Respond_cached json_value
  | Next_capturing string string

definition idempotent_verdict ::
  "(string \<Rightarrow> string) \<Rightarrow> bool \<Rightarrow> idempotency_key list \<Rightarrow> int \<Rightarrow> string option \<Rightarrow> nat option
     \<Rightarrow> string \<Rightarrow> string option \<Rightarrow> idempotency_key list \<times> guard_verdict" where
  "idempotent_verdict digest fails keys now idemKey userId route body =
     (case or_null idemKey of
        None \<Rightarrow> (keys, Next_plain)
      | Some key \<Rightarrow>
          (let reqHash = hashBody digest body;
               (keys', chk) = checkIdempotency fails keys now key userId route reqHash
           in if cr_conflict chk then (keys', Respond_conflict)
              else if js_truthy (cr_cached chk) then (keys', Respond_cached (cr_cached chk))
              else (keys', Next_capturing key reqHash)))"

text \<open>
  The middleware in front of a controller. The controller is any function from the
  application state and the request body to a new state, a status code and a response
  body; it runs only when the middleware calls \<open>next()\<close>. \<open>requestId\<close> is the
  identifier the request context carries, if any. The result is the idempotency
  table, the application state and the response sent.
\<close>

record 'st served =
  sv_keys :: "idempotency_key list"
  sv_state :: 'st
  sv_status :: nat
  sv_body :: json_value

text \<open>The body of the 409 answer. Its \<open>requestId\<close> is \<open>req.context?.requestId\<close>; when
  that is undefined, \<open>res.json\<close> leaves the field out.\<close>

definition conflict_body :: "string option \<Rightarrow> json_value" where
  "conflict_body requestId =
     JObject ([(''success'', JBool False),
               (''message'', JString ''Idempotency conflict: this key was already used with a different request payload'')] @
              (case requestId of
                 None \<Rightarrow> []
               | Some r \<Rightarrow> [(''requestId'', JString r)]))"

definition idempotent ::
  "(string \<Rightarrow> string) \<Rightarrow> bool \<Rightarrow> ('st \<Rightarrow> string option \<Rightarrow> 'st \<times> nat \<times> json_value)
     \<Rightarrow> idempotency_key list \<Rightarrow> 'st \<Rightarrow> int \<Rightarrow> string option \<Rightarrow> nat option \<Rightarrow> string
     \<Rightarrow> string option \<Rightarrow> string option \<Rightarrow> 'st served" where
  "idempotent digest fails controller keys st now idemKey userId route body requestId =
     (case idempotent_verdict digest fails keys now idemKey userId route body of
        (keys', Next_plain) \<Rightarrow>
          (case controller st body of
             (st', status, out) \<Rightarrow>
               \<lparr> sv_keys = keys', sv_state = st', sv_status = status, sv_body = out \<rparr>)
      | (keys', Respond_conflict) \<Rightarrow>
          \<lparr> sv_keys = keys', sv_state = st, sv_status = 409,
            sv_body = conflict_body requestId \<rparr>
      | (keys', Respond_cached cached) \<Rightarrow>
          \<lparr> sv_keys = keys', sv_state = st, sv_status = 200, sv_body = cached \<rparr>
      | (keys', Next_capturing key reqHash) \<Rightarrow>
          (case controller st body of
             (st', status, out) \<Rightarrow>
               \<lparr> sv_keys = (if 200 \<le> status \<and> status < 300
                             then saveIdempotency keys' now key userId route reqHash out
                             else keys'),
                 sv_state = st', sv_status = status, sv_body = out \<rparr>))"

section \<open>Specification predicates\<close>

text \<open>The words of the specification, as predicates over the data model; the
  properties below relate the operations to them.\<close>

subsection \<open>Matrix resolver\<close>

text \<open>The claim's words, as a predicate on a rule: the rule is for the document type,
  its amount range contains the amount with inclusive bounds (a null bound is
  unbounded), and, when a department is given, the rule's department is null or
  equal to it.\<close>

definition rule_applies :: "string \<Rightarrow> rat \<Rightarrow> string option \<Rightarrow> approval_matrix \<Rightarrow> bool" where
  "rule_applies docType amount department m =
     (m_doc_type m = docType \<and>
      (\<forall>lo. m_min_amount m = Some lo \<longrightarrow> lo \<le> amount) \<and>
      (\<forall>hi. m_max_amount m = Some hi \<longrightarrow> amount \<le> hi) \<and>
      (\<forall>dep. department = Some dep \<and> dep \<noteq> [] \<longrightarrow>
          m_department m = None \<or> m_department m = Some dep))"

subsection \<open>Approver resolver\<close>

text \<open>A candidate is blocked as the requester unless it holds the top administrative
  role (role code \<open>super_admin\<close>); it is skipped when it is blocked or when its
  delegation active at \<open>now\<close> points to the requester; otherwise it resolves to its
  delegate (a delegation redirect) or, without an active delegation, to itself.\<close>

definition self_blocked :: "db \<Rightarrow> nat \<Rightarrow> user \<Rightarrow> bool" where
  "self_blocked d requester u = (u_id u = requester \<and> roles_code d u \<noteq> Some ''super_admin'')"

definition candidate_skipped :: "db \<Rightarrow> int \<Rightarrow> nat \<Rightarrow> user \<Rightarrow> bool" where
  "candidate_skipped d now requester u =
     (self_blocked d requester u \<or>
      (\<exists>g. findPendingDelegation d (u_id u) now = Some g \<and> d_to_user g = requester))"

definition candidate_resolves :: "db \<Rightarrow> int \<Rightarrow> nat \<Rightarrow> user \<Rightarrow> nat \<times> bool \<Rightarrow> bool" where
  "candidate_resolves d now requester u r =
     (\<not> self_blocked d requester u \<and>
      (case findPendingDelegation d (u_id u) now of
         None \<Rightarrow> r = (u_id u, False)
       | Some g \<Rightarrow> d_to_user g \<noteq> requester \<and> r = (d_to_user g, True)))"

subsection \<open>Creating a request\<close>

definition in_progress_request_exists :: "db \<Rightarrow> string \<Rightarrow> string \<Rightarrow> bool" where
  "in_progress_request_exists d docType docId =
     (\<exists>q \<in> set (db_requests d).
        q_doc_type q = docType \<and> q_doc_id q = docId \<and> q_current_status q = ''in_progress'')"

text \<open>The repository also counts a request of status \<open>pending\<close> as active; no operation
  of the engine writes that status to a request.\<close>

definition open_request_exists :: "db \<Rightarrow> string \<Rightarrow> string \<Rightarrow> bool" where
  "open_request_exists d docType docId =
     (\<exists>q \<in> set (db_requests d).
        q_doc_type q = docType \<and> q_doc_id q = docId \<and>
        (q_current_status q = ''pending'' \<or> q_current_status q = ''in_progress''))"

text \<open>The inserted request: a fresh identifier, status \<open>in_progress\<close>, not completed,
  \<open>current_step\<close> the smallest step order of the matched rules and \<open>total_steps\<close> the
  number of distinct step orders.\<close>

definition created_request ::
  "db \<Rightarrow> submission \<Rightarrow> nat \<Rightarrow> approval_matrix list \<Rightarrow> approval_request \<Rightarrow> bool" where
  "created_request d data actorId matrices req =
     (q_id req \<notin> q_id ` set (db_requests d) \<and>
      q_doc_type req = sub_docType data \<and> q_doc_id req = sub_docId data \<and>
      q_requested_by req = actorId \<and>
      q_current_status req = ''in_progress'' \<and> \<not> q_is_completed req \<and>
      q_current_step req = Min (m_step_order ` set matrices) \<and>
      q_total_steps req = card (m_step_order ` set matrices))"

text \<open>The inserted steps: one per matched rule, in the rules' order, with fresh and
  distinct identifiers, each pending, not escalated, of the new request, with the
  rule's step order and role and the approver resolved for the rule.\<close>

definition created_steps ::
  "db \<Rightarrow> int \<Rightarrow> nat \<Rightarrow> nat \<Rightarrow> approval_matrix list \<Rightarrow> approval_step list \<Rightarrow> bool" where
  "created_steps d now actorId reqId matrices steps =
     (length steps = length matrices \<and>
      distinct (map s_id steps) \<and>
      set (map s_id steps) \<inter> set (map s_id (db_steps d)) = {} \<and>
      (\<forall>i < length matrices.
         s_approval_request_id (steps ! i) = reqId \<and>
         s_status (steps ! i) = ''pending'' \<and>
         s_step_order (steps ! i) = m_step_order (matrices ! i) \<and>
         s_role_id (steps ! i) = m_role_id (matrices ! i) \<and>
         s_approver_user (steps ! i) =
           map_option fst (resolveApprover d now (m_role_id (matrices ! i)) actorId) \<and>
         \<not> s_escalated (steps ! i)))"


subsection \<open>The approve transition\<close>

text \<open>The request row of an identifier; whether some step of a request is pending at
  a step order; the smallest strictly greater order with a pending step; and the
  effect of an approve transition on the request row, in the specification's words:
  while a step of the current order is pending the request is unchanged, otherwise
  it advances to the next pending order or, when there is none, becomes \<open>approved\<close>
  and completed with a completion time.\<close>

definition the_request :: "db \<Rightarrow> nat \<Rightarrow> approval_request option" where
  "the_request d rid = find (\<lambda>q. q_id q = rid) (db_requests d)"

definition pending_at :: "db \<Rightarrow> nat \<Rightarrow> int \<Rightarrow> bool" where
  "pending_at d rid ord =
     (\<exists>s \<in> set (db_steps d).
        s_approval_request_id s = rid \<and> s_step_order s = ord \<and> s_status s = ''pending'')"

definition next_pending_order :: "db \<Rightarrow> nat \<Rightarrow> int \<Rightarrow> int \<Rightarrow> bool" where
  "next_pending_order d rid cur n =
     (cur < n \<and> pending_at d rid n \<and> (\<forall>m. cur < m \<and> m < n \<longrightarrow> \<not> pending_at d rid m))"

definition approve_effect :: "db \<Rightarrow> int \<Rightarrow> nat \<Rightarrow> approval_request \<Rightarrow> approval_request \<Rightarrow> bool" where
  "approve_effect d' now rid q q' =
     (if pending_at d' rid (q_current_step q) then q' = q
      else
        ((\<exists>n. next_pending_order d' rid (q_current_step q) n \<and> q' = q\<lparr> q_current_step := n \<rparr>) \<or>
         ((\<forall>m. q_current_step q < m \<longrightarrow> \<not> pending_at d' rid m) \<and>
          q' = q\<lparr> q_current_status := ''approved'', q_is_completed := True,
                  q_completed_at := Some now \<rparr>)))"

text \<open>The steps a call of \<open>approveStep\<close> acts on: the steps of the request that the
  filter of the actable steps selects for the actor, over the store as read.\<close>

definition acted_on :: "db \<Rightarrow> nat \<Rightarrow> int \<Rightarrow> approval_request \<Rightarrow> approval_step \<Rightarrow> bool" where
  "acted_on d actorId now q s =
     (case findUserById d actorId of
        None \<Rightarrow> False
      | Some actor \<Rightarrow>
          s_approval_request_id s = q_id q \<and>
          approve_actable d actor actorId (delegatorIds d actorId now) q s)"


subsection \<open>Delegations\<close>

text \<open>A delegation's window is the closed interval of its dates; it is active at a
  time when its flag is set and the time is in the window. The target delegates back
  when it has a delegation to the grantor with the flag set that has not ended at
  \<open>now\<close>. The request overlaps an existing delegation when the grantor has one
  with the flag set whose window shares a time with the requested period. The two
  invariants: no two distinct rows of one grantor with the flag set share a time of
  their windows; no two rows forming a 2-cycle are both active at a time from \<open>now\<close>
  on.\<close>

definition in_window :: "approval_delegation \<Rightarrow> int \<Rightarrow> bool" where
  "in_window g t = (d_start_date g \<le> t \<and> t \<le> d_end_date g)"

definition active_at :: "approval_delegation \<Rightarrow> int \<Rightarrow> bool" where
  "active_at g t = (d_is_active g \<and> in_window g t)"

definition delegates_back :: "db \<Rightarrow> int \<Rightarrow> delegation_input \<Rightarrow> bool" where
  "delegates_back d now inp =
     (\<exists>g \<in> set (db_delegations d).
        d_from_user g = di_toUser inp \<and> d_to_user g = di_fromUser inp \<and>
        d_is_active g \<and> now \<le> d_end_date g)"

definition overlaps_existing :: "db \<Rightarrow> delegation_input \<Rightarrow> bool" where
  "overlaps_existing d inp =
     (\<exists>g \<in> set (db_delegations d).
        d_from_user g = di_fromUser inp \<and> d_is_active g \<and>
        (\<exists>t. in_window g t \<and> di_startDate inp \<le> t \<and> t \<le> di_endDate inp))"

definition no_overlap :: "approval_delegation list \<Rightarrow> bool" where
  "no_overlap ds =
     (\<forall>i < length ds. \<forall>j < length ds.
        i \<noteq> j \<and> d_from_user (ds ! i) = d_from_user (ds ! j) \<and>
        d_is_active (ds ! i) \<and> d_is_active (ds ! j) \<longrightarrow>
        \<not> (\<exists>t. in_window (ds ! i) t \<and> in_window (ds ! j) t))"

definition no_two_cycle :: "approval_delegation list \<Rightarrow> int \<Rightarrow> bool" where
  "no_two_cycle ds now =
     (\<forall>g \<in> set ds. \<forall>h \<in> set ds.
        d_from_user g = d_to_user h \<and> d_to_user g = d_from_user h \<longrightarrow>
        \<not> (\<exists>t. now \<le> t \<and> active_at g t \<and> active_at h t))"


subsection \<open>Idempotency guard\<close>

text \<open>The fingerprint the specification describes: the digest of the pair (route,
  body), here of the route followed by the body's text.\<close>

definition fingerprint_route_body :: "(string \<Rightarrow> string) \<Rightarrow> string \<Rightarrow> string option \<Rightarrow> string" where
  "fingerprint_route_body digest route body =
     take 64 (digest (route @ (case body of None \<Rightarrow> ''{}'' | Some s \<Rightarrow> s)))"


section \<open>Example data\<close>

text \<open>
  A small store used to run the operations on concrete inputs. Roles as the seed
  creates them (codes \<open>super_admin\<close>, \<open>erp_admin\<close>, \<open>project_manager\<close>,
  \<open>site_engineer\<close>); users 10 (super admin), 20 and 21 (project managers, 21 managed
  by 10), 30 and 31 (site engineers), 40 (ERP admin); user 20 delegates to user 31
  from time 0 to 100000. Request 1 is a purchase request with one step; request 2 is a
  purchase order with two parallel steps at order 1 and one step at order 2.
\<close>

definition ex_roles :: "role list" where
  "ex_roles =
     [\<lparr> r_id = 1, r_code = ''super_admin'', r_is_active = True \<rparr>,
      \<lparr> r_id = 2, r_code = ''erp_admin'', r_is_active = True \<rparr>,
      \<lparr> r_id = 3, r_code = ''project_manager'', r_is_active = True \<rparr>,
      \<lparr> r_id = 4, r_code = ''site_engineer'', r_is_active = True \<rparr>]"

definition ex_users :: "user list" where
  "ex_users =
     [\<lparr> u_id = 10, u_role_id = Some 1, u_manager_id = None, u_is_active = True, u_deleted_at = None \<rparr>,
      \<lparr> u_id = 20, u_role_id = Some 3, u_manager_id = None, u_is_active = True, u_deleted_at = None \<rparr>,
      \<lparr> u_id = 21, u_role_id = Some 3, u_manager_id = Some 10, u_is_active = True, u_deleted_at = None \<rparr>,
      \<lparr> u_id = 30, u_role_id = Some 4, u_manager_id = None, u_is_active = True, u_deleted_at = None \<rparr>,
      \<lparr> u_id = 31, u_role_id = Some 4, u_manager_id = None, u_is_active = True, u_deleted_at = None \<rparr>,
      \<lparr> u_id = 40, u_role_id = Some 2, u_manager_id = None, u_is_active = True, u_deleted_at = None \<rparr>]"

definition ex_rule :: "string \<Rightarrow> nat option \<Rightarrow> rat option \<Rightarrow> rat option \<Rightarrow> nat \<Rightarrow> int \<Rightarrow> int option
    \<Rightarrow> approval_matrix" where
  "ex_rule docType project lo hi roleId stepOrder sla =
     \<lparr> m_doc_type = docType, m_project_id = project, m_min_amount = lo, m_max_amount = hi,
       m_department = None, m_role_id = Some roleId, m_step_order = stepOrder,
       m_escalation_hours = sla \<rparr>"

definition ex_matrices :: "approval_matrix list" where
  "ex_matrices =
     [ex_rule ''PR'' None (Some 0) (Some 1000000) 3 1 (Some 24),
      ex_rule ''PR'' None (Some 1000001) (Some 999999999) 2 2 None,
      ex_rule ''PO'' (Some 7) (Some 0) None 2 2 None,
      ex_rule ''PO'' (Some 7) (Some 0) None 3 1 None,
      ex_rule ''PO'' (Some 7) (Some 0) None 4 1 None]"

definition ex_requests :: "approval_request list" where
  "ex_requests =
     [\<lparr> q_id = 1, q_doc_type = ''PR'', q_doc_id = ''PR-1'', q_project_id = None,
        q_requested_by = 30, q_current_status = ''in_progress'', q_total_steps = 1,
        q_current_step = 1, q_amount = 50000, q_department = None, q_is_completed = False,
        q_completed_at = None, q_created_at = Some 0 \<rparr>,
      \<lparr> q_id = 2, q_doc_type = ''PO'', q_doc_id = ''PO-1'', q_project_id = Some 7,
        q_requested_by = 30, q_current_status = ''in_progress'', q_total_steps = 2,
        q_current_step = 1, q_amount = 100, q_department = None, q_is_completed = False,
        q_completed_at = None, q_created_at = Some 0 \<rparr>]"

definition ex_step :: "nat \<Rightarrow> nat \<Rightarrow> int \<Rightarrow> nat \<Rightarrow> nat \<Rightarrow> approval_step" where
  "ex_step sid reqId stepOrder roleId approver =
     \<lparr> s_id = sid, s_approval_request_id = reqId, s_step_order = stepOrder,
       s_role_id = Some roleId, s_approver_user = Some approver, s_status = ''pending'',
       s_action = None, s_remarks = None, s_approved_at = None, s_escalated = False,
       s_escalated_to = None \<rparr>"

definition ex_steps :: "approval_step list" where
  "ex_steps =
     [ex_step 1 1 1 3 20,
      ex_step 2 2 1 3 20,
      ex_step 3 2 1 4 31,
      ex_step 4 2 2 2 40]"

definition ex_delegations :: "approval_delegation list" where
  "ex_delegations =
     [\<lparr> d_id = 1, d_from_user = 20, d_to_user = 31, d_start_date = 0, d_end_date = 100000,
        d_is_active = True \<rparr>]"

definition ex_db :: db where
  "ex_db = \<lparr> db_users = ex_users, db_roles = ex_roles, db_matrices = ex_matrices,
             db_requests = ex_requests, db_steps = ex_steps, db_delegations = ex_delegations \<rparr>"

definition ex_submission :: "string \<Rightarrow> string \<Rightarrow> nat option \<Rightarrow> rat \<Rightarrow> submission" where
  "ex_submission docType docId project amount =
     \<lparr> sub_docType = docType, sub_docId = docId, sub_projectId = project,
       sub_amount = amount, sub_department = None \<rparr>"


definition ex_delegation_input :: "nat \<Rightarrow> nat \<Rightarrow> int \<Rightarrow> int \<Rightarrow> delegation_input" where
  "ex_delegation_input fromUser toUser startDate endDate =
     \<lparr> di_fromUser = fromUser, di_toUser = toUser, di_startDate = startDate,
       di_endDate = endDate \<rparr>"

text \<open>Two variants of the store: user 20 deactivated while its delegation to user 31
  keeps its flag; and the delegation of user 20 to user 31 running from time 0 to
  500 only.\<close>

definition ex_db_inactive_20 :: db where
  "ex_db_inactive_20 =
     ex_db\<lparr> db_users := map (\<lambda>u. if u_id u = 20 then u\<lparr> u_is_active := False \<rparr> else u) ex_users \<rparr>"

definition ex_db_short_delegation :: db where
  "ex_db_short_delegation =
     ex_db\<lparr> db_delegations :=
              [\<lparr> d_id = 1, d_from_user = 20, d_to_user = 31, d_start_date = 0, d_end_date = 500,
                 d_is_active = True \<rparr>] \<rparr>"


text \<open>An idempotency table with one record, as \<open>saveIdempotency\<close> leaves it: key
  \<open>k1\<close>, saved by user 30 for the route \<open>/api/approvals/1/approve\<close> with the body
  \<open>{}\<close>, whose hash under the digest in use is stored, and a cached response; it
  expires at time 100000. A controller that counts its calls stands for any handler
  behind the guard.\<close>

definition ex_response :: json_value where
  "ex_response = JObject [(''success'', JBool True), (''message'', JString ''Step approved'')]"

definition ex_keys :: "(string \<Rightarrow> string) \<Rightarrow> idempotency_key list" where
  "ex_keys digest =
     [\<lparr> ik_key = ''k1'', ik_user_id = Some 30, ik_route = ''/api/approvals/1/approve'',
        ik_request_hash = hashBody digest (Some ''{}''),
        ik_response_body = ex_response, ik_expires_at = 100000 \<rparr>]"

definition ex_controller :: "nat \<Rightarrow> string option \<Rightarrow> nat \<times> nat \<times> json_value" where
  "ex_controller calls body = (Suc calls, 200, ex_response)"


text \<open>A stand-in for the digest on concrete requests: the text itself, so that no two
  inputs of at most 64 characters share a fingerprint.\<close>

definition ex_digest :: "string \<Rightarrow> string" where
  "ex_digest s = s"


section \<open>Verified properties\<close>

subsection \<open>Matrix resolver\<close>

lemma baseWhere_rule_applies:
  "baseWhere docType amount department m = rule_applies docType amount department m"
  by (auto simp: baseWhere_def rule_applies_def amount_in_range_def department_matches_def
      truthy_def split: option.splits)

text \<open>C6. \<open>findMatrices\<close> returns exactly (as a multiset) the rules that apply, taken
  from the project's rules when at least one of them applies and from the global rules
  (project = null) otherwise, in ascending step order.\<close>

theorem C6_findMatrices_exact:
  "mset (findMatrices d docType projectId amount department) =
     (if \<exists>m \<in> set (db_matrices d).
           rule_applies docType amount department m \<and> m_project_id m = projectId
      then mset (filter (\<lambda>m. rule_applies docType amount department m \<and> m_project_id m = projectId)
                   (db_matrices d))
      else mset (filter (\<lambda>m. rule_applies docType amount department m \<and> m_project_id m = None)
                   (db_matrices d)))
   \<and> sorted (map m_step_order (findMatrices d docType projectId amount department))"
proof -
  let ?P = "\<lambda>m. rule_applies docType amount department m \<and> m_project_id m = projectId"
  have ne: "(\<exists>m \<in> set (db_matrices d). ?P m) = (filter ?P (db_matrices d) \<noteq> [])"
    by (auto simp: filter_empty_conv)
  have s: "\<And>xs. (sort_key m_step_order xs = []) = (xs = [])"
    by (metis length_sort length_0_conv)
  show ?thesis
    unfolding ne findMatrices_def Let_def baseWhere_rule_applies s by simp
qed


lemmas ex_simps = ex_roles_def ex_users_def ex_rule_def ex_matrices_def ex_requests_def
  ex_step_def ex_steps_def ex_delegations_def ex_db_def ex_submission_def

theorem C6_findMatrices_witness:
  "mset (findMatrices ex_db ''PO'' (Some 7) 100 None) =
     {# ex_rule ''PO'' (Some 7) (Some 0) None 3 1 None,
        ex_rule ''PO'' (Some 7) (Some 0) None 4 1 None,
        ex_rule ''PO'' (Some 7) (Some 0) None 2 2 None #} \<and>
   sorted (map m_step_order (findMatrices ex_db ''PO'' (Some 7) 100 None)) \<and>
   mset (findMatrices ex_db ''PR'' (Some 7) 50000 None) =
     {# ex_rule ''PR'' None (Some 0) (Some 1000000) 3 1 (Some 24) #}"
  using C6_findMatrices_exact[of ex_db "''PO''" "Some 7" 100 None]
        C6_findMatrices_exact[of ex_db "''PR''" "Some 7" 50000 None]
  by (simp add: ex_simps rule_applies_def)

subsection \<open>Approver resolver\<close>

lemma resolves_not_skipped:
  "candidate_resolves d now requester u r \<Longrightarrow> \<not> candidate_skipped d now requester u"
  by (auto simp: candidate_resolves_def candidate_skipped_def split: option.splits)

lemma resolve_candidates_Some:
  "(resolve_candidates d now requester us = Some r) =
     (\<exists>pre u post. us = pre @ u # post \<and>
        (\<forall>v \<in> set pre. candidate_skipped d now requester v) \<and>
        candidate_resolves d now requester u r)"
proof (induction us)
  case Nil
  then show ?case by simp
next
  case (Cons a us)
  show ?case
  proof (cases "candidate_skipped d now requester a")
    case True
    then have step: "resolve_candidates d now requester (a # us) = resolve_candidates d now requester us"
      by (auto simp: candidate_skipped_def self_blocked_def)
    have "(\<exists>pre u post. a # us = pre @ u # post \<and>
            (\<forall>v \<in> set pre. candidate_skipped d now requester v) \<and>
            candidate_resolves d now requester u r) =
          (\<exists>pre u post. us = pre @ u # post \<and>
            (\<forall>v \<in> set pre. candidate_skipped d now requester v) \<and>
            candidate_resolves d now requester u r)" (is "?L = ?R")
    proof
      assume ?L
      then obtain pre u post where h: "a # us = pre @ u # post"
        "\<forall>v \<in> set pre. candidate_skipped d now requester v"
        "candidate_resolves d now requester u r" by blast
      from h(3) True have "pre \<noteq> []"
        using h(1) resolves_not_skipped by (cases pre) auto
      then obtain pre' where "pre = a # pre'" using h(1) by (cases pre) auto
      with h show ?R by auto
    next
      assume ?R
      then obtain pre u post where h: "us = pre @ u # post"
        "\<forall>v \<in> set pre. candidate_skipped d now requester v"
        "candidate_resolves d now requester u r" by blast
      have "a # us = (a # pre) @ u # post" using h(1) by simp
      moreover have "\<forall>v \<in> set (a # pre). candidate_skipped d now requester v"
        using h(2) True by simp
      ultimately show ?L using h(3) by blast
    qed
    with step Cons.IH show ?thesis by simp
  next
    case False
    then have val: "(resolve_candidates d now requester (a # us) = Some r) =
        candidate_resolves d now requester a r"
      by (auto simp: candidate_skipped_def candidate_resolves_def self_blocked_def
          split: option.splits)
    have "(\<exists>pre u post. a # us = pre @ u # post \<and>
            (\<forall>v \<in> set pre. candidate_skipped d now requester v) \<and>
            candidate_resolves d now requester u r) =
          candidate_resolves d now requester a r" (is "?L = ?R")
    proof
      assume ?L
      then obtain pre u post where h: "a # us = pre @ u # post"
        "\<forall>v \<in> set pre. candidate_skipped d now requester v"
        "candidate_resolves d now requester u r" by blast
      have "pre = []"
      proof (cases pre)
        case Nil then show ?thesis .
      next
        case (Cons p ps)
        with h(1) have "p = a" by simp
        with Cons h(2) False show ?thesis by simp
      qed
      with h show ?R by simp
    next
      assume ?R
      then show ?L by (intro exI[of _ "[]"] exI[of _ a] exI[of _ us]) simp
    qed
    with val show ?thesis by simp
  qed
qed

lemma resolve_candidates_None:
  "(resolve_candidates d now requester us = None) =
     (\<forall>v \<in> set us. candidate_skipped d now requester v)"
  by (induction us)
     (auto simp: candidate_skipped_def self_blocked_def split: option.splits)

text \<open>C7. \<open>resolveApprover\<close> walks the active, non-deleted holders of the role in
  the order the store returns them. Without a role the result is none. The result is
  \<open>r\<close> exactly when some candidate resolves to \<open>r\<close> (to its delegate, marked as a
  redirect, or to itself) and every candidate before it is skipped (it is the requester
  and not a \<open>super_admin\<close>, or its active delegation points to the requester). The
  result is none, a value and not an error, exactly when every candidate is skipped.\<close>

theorem C7_resolveApprover:
  "resolveApprover d now None requester = None \<and>
   findUsersByRole d rid =
     filter (\<lambda>u. u_role_id u = Some rid \<and> u_is_active u \<and> u_deleted_at u = None) (db_users d) \<and>
   ((resolveApprover d now (Some rid) requester = Some r) =
      (\<exists>pre u post. findUsersByRole d rid = pre @ u # post \<and>
         (\<forall>v \<in> set pre. candidate_skipped d now requester v) \<and>
         candidate_resolves d now requester u r)) \<and>
   ((resolveApprover d now (Some rid) requester = None) =
      (\<forall>v \<in> set (findUsersByRole d rid). candidate_skipped d now requester v))"
  by (simp add: resolveApprover_def resolve_candidates_Some resolve_candidates_None
      findUsersByRole_def)


theorem C7_resolveApprover_witness:
  "resolveApprover ex_db 1000 (Some 3) 31 = Some (21, False) \<and>
   resolveApprover ex_db 1000 (Some 3) 30 = Some (31, True) \<and>
   resolveApprover ex_db 1000 (Some 4) 30 = Some (31, False) \<and>
   resolveApprover ex_db 200000 (Some 3) 20 = Some (21, False)"
proof -
  have c: "findUsersByRole ex_db 3 = [] @ ex_users ! 1 # [ex_users ! 2]"
          "findUsersByRole ex_db 3 = [ex_users ! 1] @ ex_users ! 2 # []"
          "findUsersByRole ex_db 4 = [ex_users ! 3] @ ex_users ! 4 # []"
    by (simp_all add: findUsersByRole_def ex_simps)
  have d: "findPendingDelegation ex_db 20 1000 = Some (ex_delegations ! 0)"
          "findPendingDelegation ex_db 21 1000 = None"
          "findPendingDelegation ex_db 31 1000 = None"
          "findPendingDelegation ex_db 20 200000 = None"
          "findPendingDelegation ex_db 21 200000 = None"
    by (simp_all add: findPendingDelegation_def ex_simps)
  have r: "roles_code ex_db (ex_users ! 1) = Some ''project_manager''"
          "roles_code ex_db (ex_users ! 3) = Some ''site_engineer''"
    by (simp_all add: roles_code_def roles_of_def ex_simps)
  have 1: "\<exists>pre u post. findUsersByRole ex_db 3 = pre @ u # post \<and>
             (\<forall>v \<in> set pre. candidate_skipped ex_db 1000 31 v) \<and>
             candidate_resolves ex_db 1000 31 u (21, False)"
    apply (rule exI[of _ "[ex_users ! 1]"], rule exI[of _ "ex_users ! 2"], rule exI[of _ "[]"])
    using c(2) d by (simp add: candidate_skipped_def candidate_resolves_def self_blocked_def ex_simps)
  have 2: "\<exists>pre u post. findUsersByRole ex_db 3 = pre @ u # post \<and>
             (\<forall>v \<in> set pre. candidate_skipped ex_db 1000 30 v) \<and>
             candidate_resolves ex_db 1000 30 u (31, True)"
    apply (rule exI[of _ "[]"], rule exI[of _ "ex_users ! 1"], rule exI[of _ "[ex_users ! 2]"])
    using c(1) d by (simp add: candidate_resolves_def self_blocked_def ex_simps)
  have 3: "\<exists>pre u post. findUsersByRole ex_db 4 = pre @ u # post \<and>
             (\<forall>v \<in> set pre. candidate_skipped ex_db 1000 30 v) \<and>
             candidate_resolves ex_db 1000 30 u (31, False)"
    apply (rule exI[of _ "[ex_users ! 3]"], rule exI[of _ "ex_users ! 4"], rule exI[of _ "[]"])
    using c(3) d r by (simp add: candidate_skipped_def candidate_resolves_def self_blocked_def ex_simps)
  have 4: "\<exists>pre u post. findUsersByRole ex_db 3 = pre @ u # post \<and>
             (\<forall>v \<in> set pre. candidate_skipped ex_db 200000 20 v) \<and>
             candidate_resolves ex_db 200000 20 u (21, False)"
    apply (rule exI[of _ "[ex_users ! 1]"], rule exI[of _ "ex_users ! 2"], rule exI[of _ "[]"])
    using c(2) d r by (simp add: candidate_skipped_def candidate_resolves_def self_blocked_def ex_simps)
  show ?thesis
    using 1 2 3 4
      C7_resolveApprover[of ex_db 1000 31 3 "(21, False)"]
      C7_resolveApprover[of ex_db 1000 30 3 "(31, True)"]
      C7_resolveApprover[of ex_db 1000 30 4 "(31, False)"]
      C7_resolveApprover[of ex_db 200000 20 3 "(21, False)"]
    by blast
qed

subsection \<open>Creating a request\<close>

lemma findActiveRequest_None:
  "(findActiveRequest d docType docId = None) = (\<not> open_request_exists d docType docId)"
  by (auto simp: findActiveRequest_def open_request_exists_def find_None_iff)

lemma fold_max_ge: "x \<in> set ids \<Longrightarrow> x \<le> fold max ids (b::nat)"
proof (induction ids arbitrary: b)
  case Nil then show ?case by simp
next
  case (Cons a ids)
  have mono: "\<And>c. c \<le> fold max ids (c::nat)"
  proof -
    fix c :: nat show "c \<le> fold max ids c"
    proof (induction ids arbitrary: c)
      case Nil then show ?case by simp
    next
      case (Cons y ys)
      have "c \<le> max y c" by simp
      also have "\<dots> \<le> fold max ys (max y c)" by (rule Cons.IH)
      finally show ?case by simp
    qed
  qed
  show ?case
  proof (cases "x = a")
    case True
    have "a \<le> max a b" by simp
    also have "\<dots> \<le> fold max ids (max a b)" by (rule mono)
    finally show ?thesis using True by simp
  next
    case False
    with Cons.prems have "x \<in> set ids" by simp
    then show ?thesis using Cons.IH by simp
  qed
qed

lemma next_id_fresh: "next_id ids + i \<notin> set ids"
proof
  assume "next_id ids + i \<in> set ids"
  then have "next_id ids + i \<le> fold max ids 0" by (rule fold_max_ge)
  then show False by (simp add: next_id_def)
qed

lemma uniqueStepOrders_eq:
  "uniqueStepOrders ms = sorted_list_of_set (m_step_order ` set ms)"
  by (simp add: uniqueStepOrders_def sorted_list_of_set_sort_remdups[symmetric])

lemma uniqueStepOrders_length:
  "length (uniqueStepOrders ms) = card (m_step_order ` set ms)"
  by (simp add: uniqueStepOrders_eq)

lemma uniqueStepOrders_hd:
  "ms \<noteq> [] \<Longrightarrow> hd (uniqueStepOrders ms) = Min (m_step_order ` set ms)"
  by (simp add: uniqueStepOrders_eq sorted_list_of_set_nonempty)

lemma stepInserts_length: "length (stepInserts d now actorId rid ms) = length ms"
  by (simp add: stepInserts_def)

lemma stepInserts_nth:
  "i < length ms \<Longrightarrow>
   stepInserts d now actorId rid ms ! i =
     stepInsert d now actorId rid (next_id (map s_id (db_steps d)) + i) (ms ! i)"
  by (simp add: stepInserts_def nth_enumerate_eq)

lemma stepInserts_ids:
  "map s_id (stepInserts d now actorId rid ms) =
     map (\<lambda>i. next_id (map s_id (db_steps d)) + i) [0..<length ms]"
  by (rule nth_equalityI) (simp_all add: stepInserts_length stepInserts_nth stepInsert_def)

lemma stepInserts_distinct: "distinct (map s_id (stepInserts d now actorId rid ms))"
  by (simp add: stepInserts_ids distinct_map inj_on_def)

lemma stepInserts_fresh:
  "set (map s_id (stepInserts d now actorId rid ms)) \<inter> set (map s_id (db_steps d)) = {}"
proof -
  have "\<And>x. x \<in> set (map s_id (stepInserts d now actorId rid ms)) \<Longrightarrow>
            x \<notin> set (map s_id (db_steps d))"
  proof -
    fix x assume "x \<in> set (map s_id (stepInserts d now actorId rid ms))"
    then obtain i where "x = next_id (map s_id (db_steps d)) + i"
      unfolding stepInserts_ids by (auto dest: le_Suc_ex)
    then show "x \<notin> set (map s_id (db_steps d))"
      using next_id_fresh[of "map s_id (db_steps d)" i] by simp
  qed
  then show ?thesis by blast
qed

text \<open>C1. \<open>requestApproval\<close> answers 409 when an \<open>in_progress\<close> request exists for the
  same document type and document id; when no open request exists and no matrix rule
  matches it answers 422 (an error result carries no store: nothing is created); and
  when no open request exists and rules match, it returns the store extended, in one
  step, by exactly one request and one step per matched rule, as \<open>created_request\<close>
  and \<open>created_steps\<close> describe them.\<close>

theorem C1_requestApproval:
  "(in_progress_request_exists d (sub_docType data) (sub_docId data) \<longrightarrow>
      requestApproval d now data actorId = Inl (AppError 409)) \<and>
   (\<not> open_request_exists d (sub_docType data) (sub_docId data) \<and>
    findMatrices d (sub_docType data) (sub_projectId data) (sub_amount data) (sub_department data) = [] \<longrightarrow>
      requestApproval d now data actorId = Inl (AppError 422)) \<and>
   (\<not> open_request_exists d (sub_docType data) (sub_docId data) \<and>
    findMatrices d (sub_docType data) (sub_projectId data) (sub_amount data) (sub_department data) \<noteq> [] \<longrightarrow>
      (\<exists>req steps.
         requestApproval d now data actorId =
           Inr (d\<lparr> db_requests := db_requests d @ [req], db_steps := db_steps d @ steps \<rparr>,
                \<lparr> rr_approvalRequestId = q_id req,
                  rr_currentStatus = ''in_progress'',
                  rr_totalSteps = q_total_steps req,
                  rr_currentStep = q_current_step req \<rparr>) \<and>
         created_request d data actorId
           (findMatrices d (sub_docType data) (sub_projectId data) (sub_amount data) (sub_department data)) req \<and>
         created_steps d now actorId (q_id req)
           (findMatrices d (sub_docType data) (sub_projectId data) (sub_amount data) (sub_department data)) steps))"
proof (intro conjI impI)
  assume "in_progress_request_exists d (sub_docType data) (sub_docId data)"
  then have "open_request_exists d (sub_docType data) (sub_docId data)"
    by (auto simp: in_progress_request_exists_def open_request_exists_def)
  then have "findActiveRequest d (sub_docType data) (sub_docId data) \<noteq> None"
    by (simp add: findActiveRequest_None)
  then show "requestApproval d now data actorId = Inl (AppError 409)"
    by (auto simp: requestApproval_def)
next
  assume "\<not> open_request_exists d (sub_docType data) (sub_docId data) \<and>
    findMatrices d (sub_docType data) (sub_projectId data) (sub_amount data) (sub_department data) = []"
  then show "requestApproval d now data actorId = Inl (AppError 422)"
    by (simp add: requestApproval_def findActiveRequest_None[symmetric])
next
  let ?ms = "findMatrices d (sub_docType data) (sub_projectId data) (sub_amount data) (sub_department data)"
  assume a: "\<not> open_request_exists d (sub_docType data) (sub_docId data) \<and> ?ms \<noteq> []"
  let ?rid = "next_id (map q_id (db_requests d))"
  let ?req = "\<lparr> q_id = ?rid,
                 q_doc_type = sub_docType data,
                 q_doc_id = sub_docId data,
                 q_project_id = sub_projectId data,
                 q_requested_by = actorId,
                 q_current_status = ''in_progress'',
                 q_total_steps = length (uniqueStepOrders ?ms),
                 q_current_step = hd (uniqueStepOrders ?ms),
                 q_amount = sub_amount data,
                 q_department = or_null (sub_department data),
                 q_is_completed = False,
                 q_completed_at = None,
                 q_created_at = Some now \<rparr>"
  let ?steps = "stepInserts d now actorId ?rid ?ms"
  have r: "requestApproval d now data actorId =
           Inr (d\<lparr> db_requests := db_requests d @ [?req], db_steps := db_steps d @ ?steps \<rparr>,
                \<lparr> rr_approvalRequestId = q_id ?req,
                  rr_currentStatus = ''in_progress'',
                  rr_totalSteps = q_total_steps ?req,
                  rr_currentStep = q_current_step ?req \<rparr>)"
    using a by (simp add: requestApproval_def findActiveRequest_None[symmetric] Let_def)
  have fresh: "?rid \<notin> q_id ` set (db_requests d)"
    using next_id_fresh[of "map q_id (db_requests d)" 0] by simp
  have cr: "created_request d data actorId ?ms ?req"
    using a fresh
    by (simp add: created_request_def uniqueStepOrders_length uniqueStepOrders_hd)
  have cs: "created_steps d now actorId (q_id ?req) ?ms ?steps"
    unfolding created_steps_def
    by (simp add: stepInserts_length stepInserts_distinct stepInserts_fresh
        stepInserts_nth stepInsert_def del: set_map)
  show "\<exists>req steps.
         requestApproval d now data actorId =
           Inr (d\<lparr> db_requests := db_requests d @ [req], db_steps := db_steps d @ steps \<rparr>,
                \<lparr> rr_approvalRequestId = q_id req,
                  rr_currentStatus = ''in_progress'',
                  rr_totalSteps = q_total_steps req,
                  rr_currentStep = q_current_step req \<rparr>) \<and>
         created_request d data actorId ?ms req \<and>
         created_steps d now actorId (q_id req) ?ms steps"
    using r cr cs by blast
qed


theorem C1_requestApproval_witness:
  "requestApproval ex_db 1000 (ex_submission ''PO'' ''PO-1'' (Some 7) 100) 30 = Inl (AppError 409) \<and>
   requestApproval ex_db 1000 (ex_submission ''GRN'' ''G-1'' (Some 7) 100) 30 = Inl (AppError 422) \<and>
   (\<exists>req steps.
      requestApproval ex_db 1000 (ex_submission ''PO'' ''PO-2'' (Some 7) 100) 30 =
        Inr (ex_db\<lparr> db_requests := db_requests ex_db @ [req], db_steps := db_steps ex_db @ steps \<rparr>,
             \<lparr> rr_approvalRequestId = q_id req, rr_currentStatus = ''in_progress'',
               rr_totalSteps = 2, rr_currentStep = 1 \<rparr>) \<and>
      q_current_status req = ''in_progress'' \<and> q_current_step req = 1 \<and> q_total_steps req = 2 \<and>
      map s_status steps = [''pending'', ''pending'', ''pending''] \<and>
      map s_step_order steps = [1, 1, 2])"
proof -
  let ?new = "ex_submission ''PO'' ''PO-2'' (Some 7) 100"
  have m: "findMatrices ex_db ''PO'' (Some 7) 100 None =
             [ex_rule ''PO'' (Some 7) (Some 0) None 3 1 None,
              ex_rule ''PO'' (Some 7) (Some 0) None 4 1 None,
              ex_rule ''PO'' (Some 7) (Some 0) None 2 2 None]"
    by (simp add: findMatrices_def baseWhere_def amount_in_range_def department_matches_def
        truthy_def ex_simps)
  have g: "findMatrices ex_db ''GRN'' (Some 7) 100 None = []"
    by (simp add: findMatrices_def baseWhere_def amount_in_range_def department_matches_def
        truthy_def ex_simps)
  have a: "in_progress_request_exists ex_db ''PO'' ''PO-1''"
    by (simp add: in_progress_request_exists_def ex_simps)
  have b: "\<not> open_request_exists ex_db ''GRN'' ''G-1''" "\<not> open_request_exists ex_db ''PO'' ''PO-2''"
    by (simp_all add: open_request_exists_def ex_simps)
  have 1: "requestApproval ex_db 1000 (ex_submission ''PO'' ''PO-1'' (Some 7) 100) 30 = Inl (AppError 409)"
    using a C1_requestApproval[of ex_db "ex_submission ''PO'' ''PO-1'' (Some 7) 100" 1000 30]
    by (simp add: ex_submission_def)
  have 2: "requestApproval ex_db 1000 (ex_submission ''GRN'' ''G-1'' (Some 7) 100) 30 = Inl (AppError 422)"
    using b(1) g C1_requestApproval[of ex_db "ex_submission ''GRN'' ''G-1'' (Some 7) 100" 1000 30]
    by (simp add: ex_submission_def)
  from b(2) m C1_requestApproval[of ex_db ?new 1000 30]
  obtain req steps where r:
    "requestApproval ex_db 1000 ?new 30 =
        Inr (ex_db\<lparr> db_requests := db_requests ex_db @ [req], db_steps := db_steps ex_db @ steps \<rparr>,
             \<lparr> rr_approvalRequestId = q_id req, rr_currentStatus = ''in_progress'',
               rr_totalSteps = q_total_steps req, rr_currentStep = q_current_step req \<rparr>)"
    "created_request ex_db ?new 30 (findMatrices ex_db ''PO'' (Some 7) 100 None) req"
    "created_steps ex_db 1000 30 (q_id req) (findMatrices ex_db ''PO'' (Some 7) 100 None) steps"
    by (auto simp: ex_submission_def)
  have q: "q_current_status req = ''in_progress''" "q_current_step req = 1" "q_total_steps req = 2"
    using r(2) unfolding m by (simp_all add: created_request_def ex_rule_def)
  have l: "length steps = 3" using r(3) unfolding m by (simp add: created_steps_def)
  have s: "\<forall>i < 3. s_status (steps ! i) = ''pending'' \<and>
             s_step_order (steps ! i) =
               m_step_order ([ex_rule ''PO'' (Some 7) (Some 0) None 3 1 None,
                              ex_rule ''PO'' (Some 7) (Some 0) None 4 1 None,
                              ex_rule ''PO'' (Some 7) (Some 0) None 2 2 None] ! i)"
    using r(3) unfolding m by (simp add: created_steps_def)
  have "steps = [steps ! 0, steps ! 1, steps ! 2]"
    using l by (intro nth_equalityI) (auto simp: less_Suc_eq numeral_3_eq_3 numeral_2_eq_2)
  then have "map s_status steps = [s_status (steps ! 0), s_status (steps ! 1), s_status (steps ! 2)]"
            "map s_step_order steps = [s_step_order (steps ! 0), s_step_order (steps ! 1), s_step_order (steps ! 2)]"
    by (metis list.simps(8,9))+
  with s have t: "map s_status steps = [''pending'', ''pending'', ''pending'']"
              "map s_step_order steps = [1, 1, 2]"
    by (simp_all add: ex_rule_def)
  let ?P = "\<lambda>req steps.
      requestApproval ex_db 1000 ?new 30 =
        Inr (ex_db\<lparr> db_requests := db_requests ex_db @ [req], db_steps := db_steps ex_db @ steps \<rparr>,
             \<lparr> rr_approvalRequestId = q_id req, rr_currentStatus = ''in_progress'',
               rr_totalSteps = 2, rr_currentStep = 1 \<rparr>) \<and>
      q_current_status req = ''in_progress'' \<and> q_current_step req = 1 \<and> q_total_steps req = 2 \<and>
      map s_status steps = [''pending'', ''pending'', ''pending''] \<and>
      map s_step_order steps = [1, 1, 2]"
  have p: "?P req steps"
    using r(1) q t by simp
  have 3: "\<exists>req steps. ?P req steps"
  proof (intro exI)
    show "?P req steps" by (fact p)
  qed
  show ?thesis by (rule conjI[OF 1 conjI[OF 2 3]])
qed

subsection \<open>The approve transition\<close>

lemma fold_approve_update:
  "fold (\<lambda>step. approve_update now remarks actorId (s_id step)) acts steps =
     map (\<lambda>s. if s_id s \<in> s_id ` set acts then approve_data now remarks actorId s else s) steps"
proof (induction acts arbitrary: steps)
  case Nil
  then show ?case by simp
next
  case (Cons a acts)
  have id: "\<And>s. s_id (approve_data now remarks actorId s) = s_id s"
    by (simp add: approve_data_def)
  have idem: "\<And>s. approve_data now remarks actorId (approve_data now remarks actorId s) =
                 approve_data now remarks actorId s"
    by (simp add: approve_data_def)
  have "fold (\<lambda>step. approve_update now remarks actorId (s_id step)) (a # acts) steps =
        fold (\<lambda>step. approve_update now remarks actorId (s_id step)) acts
          (approve_update now remarks actorId (s_id a) steps)"
    by simp
  also have "\<dots> = map (\<lambda>s. if s_id s \<in> s_id ` set acts then approve_data now remarks actorId s else s)
                      (approve_update now remarks actorId (s_id a) steps)"
    by (rule Cons.IH)
  also have "\<dots> = map (\<lambda>s. if s_id s \<in> s_id ` set (a # acts)
                             then approve_data now remarks actorId s else s) steps"
    by (auto simp: approve_update_def id idem)
  finally show ?case .
qed

lemma find_update_request:
  assumes "\<And>q. q_id (f q) = q_id q"
  shows "find (\<lambda>q. q_id q = rid) (update_request rid f qs) =
           map_option f (find (\<lambda>q. q_id q = rid) qs)"
  using assms by (induction qs) (auto simp: update_request_def)

lemma findRequestWithSteps_Some:
  assumes "findRequestWithSteps d rid = Some (q, steps)"
  shows "find (\<lambda>q. q_id q = rid) (db_requests d) = Some q"
    and "q_id q = rid"
    and "set steps = {s \<in> set (db_steps d). s_approval_request_id s = rid}"
proof -
  from assms obtain q0 where f: "find (\<lambda>q. q_id q = rid) (db_requests d) = Some q0"
    and e: "q = q0"
       "steps = sort_key s_step_order (filter (\<lambda>s. s_approval_request_id s = q_id q0) (db_steps d))"
    by (auto simp: findRequestWithSteps_def findRequestById_def split: option.splits)
  from f have i: "q_id q0 = rid" by (auto simp: find_Some_iff)
  show "find (\<lambda>q. q_id q = rid) (db_requests d) = Some q" using f e by simp
  show "q_id q = rid" using i e by simp
  show "set steps = {s \<in> set (db_steps d). s_approval_request_id s = rid}"
    using e i by auto
qed

lemma sort_key_Nil_iff: "(sort_key f xs = []) = (xs = [])"
  by (metis length_sort length_0_conv)

lemma findNextStepOrder_None:
  "(findNextStepOrder d rid cur = None) = (\<forall>m. cur < m \<longrightarrow> \<not> pending_at d rid m)"
proof -
  let ?xs = "filter (\<lambda>s. s_approval_request_id s = rid \<and> cur < s_step_order s \<and>
                          s_status s = ''pending'') (db_steps d)"
  have "(findNextStepOrder d rid cur = None) = (sort_key s_step_order ?xs = [])"
    unfolding findNextStepOrder_def by (cases "sort_key s_step_order ?xs") simp_all
  also have "\<dots> = (?xs = [])" by (rule sort_key_Nil_iff)
  also have "\<dots> = (\<forall>s \<in> set (db_steps d).
        \<not> (s_approval_request_id s = rid \<and> cur < s_step_order s \<and> s_status s = ''pending''))"
    by (simp only: filter_empty_conv)
  also have "\<dots> = (\<forall>m. cur < m \<longrightarrow> \<not> pending_at d rid m)"
    unfolding pending_at_def by blast
  finally show ?thesis .
qed

lemma findNextStepOrder_Some:
  assumes "findNextStepOrder d rid cur = Some n"
  shows "next_pending_order d rid cur n"
proof -
  let ?P = "\<lambda>s. s_approval_request_id s = rid \<and> cur < s_step_order s \<and> s_status s = ''pending''"
  let ?xs = "sort_key s_step_order (filter ?P (db_steps d))"
  from assms obtain x rest where xs: "?xs = x # rest" and n: "n = s_step_order x"
    unfolding findNextStepOrder_def by (cases ?xs) auto
  have "x \<in> set ?xs" using xs by simp
  then have x: "x \<in> set (db_steps d)" "?P x" by auto
  have srt: "sorted (map s_step_order ?xs)" by (rule sorted_sort_key)
  have least: "\<And>y. y \<in> set (db_steps d) \<Longrightarrow> ?P y \<Longrightarrow> n \<le> s_step_order y"
  proof -
    fix y assume "y \<in> set (db_steps d)" "?P y"
    then have "y \<in> set ?xs" by simp
    then have "y = x \<or> y \<in> set rest" using xs by auto
    moreover have "\<forall>z \<in> set rest. s_step_order x \<le> s_step_order z"
      using srt unfolding xs by simp
    ultimately show "n \<le> s_step_order y" using n by auto
  qed
  show ?thesis
    unfolding next_pending_order_def pending_at_def
    using x n least by fastforce
qed


text \<open>The steps after the transaction's updates.\<close>

lemma approve_transaction_steps:
  "db_steps (fst (approve_transaction d now rid actorId remarks q steps acts)) =
     map (\<lambda>s. if s_id s \<in> s_id ` set acts then approve_data now remarks actorId s else s)
       (db_steps d)"
  by (cases "findNextStepOrder d rid (q_current_step q)")
     (simp_all add: approve_transaction_def Let_def fold_approve_update)

lemma find_None_image: "(find (\<lambda>a. s_id a = i) acts = None) = (i \<notin> s_id ` set acts)"
  by (auto simp: find_None_iff)

text \<open>After the transaction, a step of the request is pending at an order exactly when
  it was pending there before and its identifier is not one of those acted on.\<close>

lemma pending_after_approve:
  "pending_at (fst (approve_transaction d now rid actorId remarks q steps acts)) rid ord =
           (\<exists>s \<in> set (db_steps d). s_approval_request_id s = rid \<and> s_step_order s = ord \<and>
              s_status s = ''pending'' \<and> s_id s \<notin> s_id ` set acts)"
  unfolding pending_at_def approve_transaction_steps
  by (auto simp: approve_data_def)


lemma approveStep_transition:
  assumes "approveStep d now rid actorId remarks = Inr (d', res)"
    and "ar_note res = None"
  obtains actor q steps where
    "findUserById d actorId = Some actor"
    "findRequestWithSteps d rid = Some (q, steps)"
    "q_current_status q = ''in_progress''"
    "filter (approve_actable d actor actorId (delegatorIds d actorId now) q) steps \<noteq> []"
    "(d', res) = approve_transaction d now rid actorId remarks q steps
        (filter (approve_actable d actor actorId (delegatorIds d actorId now) q) steps)"
proof -
  from assms(1) obtain actor where u: "findUserById d actorId = Some actor"
    by (cases "findUserById d actorId") (simp_all add: approveStep_def)
  from assms(1) u obtain q steps where r: "findRequestWithSteps d rid = Some (q, steps)"
    by (cases "findRequestWithSteps d rid") (auto simp: approveStep_def)
  from assms(1) u r have st: "q_current_status q = ''in_progress''"
    by (cases "q_current_status q = ''in_progress''") (simp_all add: approveStep_def)
  let ?acts = "filter (approve_actable d actor actorId (delegatorIds d actorId now) q) steps"
  from assms(1) u r st have nb: "\<not> (q_requested_by q = actorId \<and> \<not> isAdmin d actor)"
    by (cases "q_requested_by q = actorId \<and> \<not> isAdmin d actor") (simp_all add: approveStep_def)
  have ne: "?acts \<noteq> []"
  proof
    assume e: "?acts = []"
    show False
    proof (cases "find (approve_alreadyDone actor actorId q) steps")
      case None
      with assms(1) u r st nb e show False by (simp add: approveStep_def Let_def)
    next
      case (Some a)
      with assms(1) u r st nb e have "ar_note res \<noteq> None"
        by (auto simp: approveStep_def Let_def)
      with assms(2) show False by simp
    qed
  qed
  with assms(1) u r st nb
  have "(d', res) = approve_transaction d now rid actorId remarks q steps ?acts"
    by (simp add: approveStep_def Let_def)
  with u r st ne show thesis by (rule that)
qed

lemma distinct_ids_eq:
  "distinct (map s_id xs) \<Longrightarrow> a \<in> set xs \<Longrightarrow> s \<in> set xs \<Longrightarrow> s_id s = s_id a \<Longrightarrow> s = a"
  by (auto simp: distinct_map inj_on_def)

lemma approve_transaction_stay:
  assumes "stillPending q steps acts \<noteq> []"
  shows "db_requests (fst (approve_transaction d now rid actorId remarks q steps acts)) =
           db_requests d"
  using assms by (simp add: approve_transaction_def Let_def)

lemma approve_transaction_advance:
  assumes "stillPending q steps acts = []"
    and "findNextStepOrder d rid (q_current_step q) = Some n"
  shows "db_requests (fst (approve_transaction d now rid actorId remarks q steps acts)) =
           update_request rid (\<lambda>q. q\<lparr> q_current_step := n \<rparr>) (db_requests d)"
  using assms by (simp add: approve_transaction_def Let_def)

lemma approve_transaction_complete:
  assumes "stillPending q steps acts = []"
    and "findNextStepOrder d rid (q_current_step q) = None"
  shows "db_requests (fst (approve_transaction d now rid actorId remarks q steps acts)) =
           update_request rid
             (\<lambda>q. q\<lparr> q_current_status := ''approved'', q_is_completed := True,
                      q_completed_at := Some now \<rparr>) (db_requests d)"
  using assms by (simp add: approve_transaction_def Let_def)

lemma stillPending_iff:
  assumes "set steps = {s \<in> set (db_steps d). s_approval_request_id s = rid}"
  shows "(stillPending q steps acts \<noteq> []) =
           pending_at (fst (approve_transaction d now rid actorId remarks q steps acts)) rid
             (q_current_step q)"
proof -
  have "(stillPending q steps acts \<noteq> []) =
        (\<exists>s \<in> set steps. s_step_order s = q_current_step q \<and> s_id s \<notin> s_id ` set acts \<and>
                            s_status s = ''pending'')"
    unfolding stillPending_def Let_def filter_empty_conv find_None_image by auto
  also have "\<dots> = pending_at (fst (approve_transaction d now rid actorId remarks q steps acts)) rid
             (q_current_step q)"
    unfolding pending_after_approve assms by blast
  finally show ?thesis .
qed

lemma later_pending_unchanged:
  assumes dist: "distinct (map s_id (db_steps d))"
    and sub: "set acts \<subseteq> set (db_steps d)"
    and cur: "\<And>a. a \<in> set acts \<Longrightarrow> s_step_order a = cur"
    and m: "cur < m"
  shows "pending_at (fst (approve_transaction d now rid actorId remarks q steps acts)) rid m =
           pending_at d rid m"
proof -
  have "\<And>s. s \<in> set (db_steps d) \<Longrightarrow> s_step_order s = m \<Longrightarrow> s_id s \<notin> s_id ` set acts"
  proof
    fix s assume s: "s \<in> set (db_steps d)" "s_step_order s = m" "s_id s \<in> s_id ` set acts"
    then obtain a where a: "a \<in> set acts" "s_id s = s_id a" by blast
    from a(1) sub have "a \<in> set (db_steps d)" by blast
    from dist this s(1) a(2) have "s = a" by (rule distinct_ids_eq)
    with a(1) cur s(2) m show False by simp
  qed
  then have e: "(\<exists>s \<in> set (db_steps d). s_approval_request_id s = rid \<and> s_step_order s = m \<and>
                s_status s = ''pending'' \<and> s_id s \<notin> s_id ` set acts) =
             (\<exists>s \<in> set (db_steps d). s_approval_request_id s = rid \<and> s_step_order s = m \<and>
                s_status s = ''pending'')"
    by blast
  have "pending_at (fst (approve_transaction d now rid actorId remarks q steps acts)) rid m =
        (\<exists>s \<in> set (db_steps d). s_approval_request_id s = rid \<and> s_step_order s = m \<and>
                s_status s = ''pending'' \<and> s_id s \<notin> s_id ` set acts)"
    by (rule pending_after_approve)
  also note e
  also have "(\<exists>s \<in> set (db_steps d). s_approval_request_id s = rid \<and> s_step_order s = m \<and>
                s_status s = ''pending'') = pending_at d rid m"
    by (simp only: pending_at_def)
  finally show ?thesis .
qed

lemma approveStep_read_then_transaction:
  "approveStep d now rid actorId remarks =
     (case approve_read d now rid actorId of
        Inl e \<Rightarrow> Inl e
      | Inr (Answer_already_done res) \<Rightarrow> Inr (d, res)
      | Inr (Run_transaction q steps acts) \<Rightarrow>
          Inr (approve_transaction d now rid actorId remarks q steps acts))"
  by (auto simp: approveStep_def approve_read_def Let_def split: option.splits prod.splits)

lemma acted_on_iff:
  assumes dist: "distinct (map s_id (db_steps d))"
    and u: "findUserById d actorId = Some actor"
    and r: "findRequestWithSteps d rid = Some (q, steps)"
    and s: "s \<in> set (db_steps d)"
  shows "(s_id s \<in> s_id ` set (filter (approve_actable d actor actorId
                                       (delegatorIds d actorId now) q) steps)) =
           acted_on d actorId now q s"
proof -
  note rq = findRequestWithSteps_Some[OF r]
  let ?acts = "filter (approve_actable d actor actorId (delegatorIds d actorId now) q) steps"
  have a: "acted_on d actorId now q s = (s \<in> set ?acts)"
    using u rq(2) rq(3) s by (auto simp: acted_on_def)
  have "(s_id s \<in> s_id ` set ?acts) = (s \<in> set ?acts)"
  proof
    assume "s_id s \<in> s_id ` set ?acts"
    then obtain x where x: "x \<in> set ?acts" "s_id s = s_id x" by blast
    from x(1) rq(3) have "x \<in> set (db_steps d)" by auto
    from dist this s x(2) have "s = x" by (rule distinct_ids_eq)
    with x(1) show "s \<in> set ?acts" by simp
  next
    assume "s \<in> set ?acts"
    then show "s_id s \<in> s_id ` set ?acts" by blast
  qed
  with a show ?thesis by simp
qed

lemma approve_transition_steps:
  assumes dist: "distinct (map s_id (db_steps d))"
    and ok: "approveStep d now rid actorId remarks = Inr (d', res)"
    and nt: "ar_note res = None"
  shows "\<exists>q. the_request d rid = Some q \<and>
           db_steps d' =
             map (\<lambda>s. if acted_on d actorId now q s then approve_data now remarks actorId s else s)
               (db_steps d) \<and>
           (\<exists>s \<in> set (db_steps d). acted_on d actorId now q s) \<and>
           pending_at d' rid (q_current_step q) =
             (\<exists>s \<in> set (db_steps d). s_approval_request_id s = rid \<and>
                s_step_order s = q_current_step q \<and> s_status s = ''pending'' \<and>
                \<not> acted_on d actorId now q s)"
proof -
  from ok nt obtain actor q steps where
    u: "findUserById d actorId = Some actor" and
    r: "findRequestWithSteps d rid = Some (q, steps)" and
    st: "q_current_status q = ''in_progress''" and
    ne: "filter (approve_actable d actor actorId (delegatorIds d actorId now) q) steps \<noteq> []" and
    tx: "(d', res) = approve_transaction d now rid actorId remarks q steps
           (filter (approve_actable d actor actorId (delegatorIds d actorId now) q) steps)"
    by (rule approveStep_transition)
  define acts where "acts = filter (approve_actable d actor actorId (delegatorIds d actorId now) q) steps"
  have d': "d' = fst (approve_transaction d now rid actorId remarks q steps acts)"
    using arg_cong[OF tx, of fst] unfolding acts_def by simp
  note rq = findRequestWithSteps_Some[OF r]
  have tr: "the_request d rid = Some q" using rq(1) by (simp add: the_request_def)
  have iff: "\<And>s. s \<in> set (db_steps d) \<Longrightarrow> (s_id s \<in> s_id ` set acts) = acted_on d actorId now q s"
    unfolding acts_def using dist u r by (rule acted_on_iff)
  have steps: "db_steps d' =
      map (\<lambda>s. if acted_on d actorId now q s then approve_data now remarks actorId s else s)
        (db_steps d)"
    unfolding d' approve_transaction_steps using iff by (simp cong: map_cong)
  from ne obtain a where a: "a \<in> set acts" unfolding acts_def[symmetric] by (cases acts) auto
  then have "a \<in> set (db_steps d)" unfolding acts_def using rq(3) by auto
  moreover from this a have "acted_on d actorId now q a" using iff by blast
  ultimately have some: "\<exists>s \<in> set (db_steps d). acted_on d actorId now q s" by blast
  have pend: "pending_at d' rid (q_current_step q) =
             (\<exists>s \<in> set (db_steps d). s_approval_request_id s = rid \<and>
                s_step_order s = q_current_step q \<and> s_status s = ''pending'' \<and>
                \<not> acted_on d actorId now q s)"
    unfolding d' pending_after_approve using iff by blast
  show ?thesis
    apply (rule exI[of _ q])
    using tr steps some pend by simp
qed



text \<open>The request row after a call that made the transition.\<close>

lemma approve_transition_request:
  assumes "distinct (map s_id (db_steps d))"
    and "approveStep d now rid actorId remarks = Inr (d', res)"
    and "ar_note res = None"
  shows "\<exists>q q'. the_request d rid = Some q \<and> the_request d' rid = Some q' \<and>
           q_current_status q = ''in_progress'' \<and>
           approve_effect d' now rid q q' \<and>
           q_current_step q \<le> q_current_step q' \<and>
           (\<forall>m. q_current_step q \<le> m \<and> m < q_current_step q' \<longrightarrow> \<not> pending_at d' rid m)"
proof -
  from assms(2,3) obtain actor q steps where
    u: "findUserById d actorId = Some actor" and
    r: "findRequestWithSteps d rid = Some (q, steps)" and
    st: "q_current_status q = ''in_progress''" and
    ne: "filter (approve_actable d actor actorId (delegatorIds d actorId now) q) steps \<noteq> []" and
    tx: "(d', res) = approve_transaction d now rid actorId remarks q steps
           (filter (approve_actable d actor actorId (delegatorIds d actorId now) q) steps)"
    by (rule approveStep_transition)
  define acts where "acts = filter (approve_actable d actor actorId (delegatorIds d actorId now) q) steps"
  define cur where "cur = q_current_step q"
  have d': "d' = fst (approve_transaction d now rid actorId remarks q steps acts)"
    using arg_cong[OF tx, of fst] unfolding acts_def by simp
  note rq = findRequestWithSteps_Some[OF r]
  have tr: "the_request d rid = Some q" using rq(1) by (simp add: the_request_def)
  have acts_sub: "set acts \<subseteq> set (db_steps d)"
    unfolding acts_def using rq(3) by auto
  have acts_cur: "\<And>a. a \<in> set acts \<Longrightarrow> s_step_order a = cur"
    unfolding acts_def cur_def by (auto simp: approve_actable_def split: if_splits)
  have later: "\<And>m. cur < m \<Longrightarrow> pending_at d' rid m = pending_at d rid m"
    unfolding d' using assms(1) acts_sub acts_cur by (rule later_pending_unchanged)
  have still: "(stillPending q steps acts \<noteq> []) = pending_at d' rid cur"
    unfolding d' cur_def using rq(3) by (rule stillPending_iff)
  have final: ?thesis
    if "the_request d' rid = Some q'" "approve_effect d' now rid q q'"
       "q_current_step q \<le> q_current_step q'"
       "\<forall>m. q_current_step q \<le> m \<and> m < q_current_step q' \<longrightarrow> \<not> pending_at d' rid m" for q'
    apply (rule exI[of _ q], rule exI[of _ q'])
    using tr st that by simp
  show ?thesis
  proof (cases "stillPending q steps acts \<noteq> []")
    case True
    then have "db_requests d' = db_requests d"
      unfolding d' by (rule approve_transaction_stay)
    then have tr': "the_request d' rid = Some q" using tr by (simp add: the_request_def)
    have eff: "approve_effect d' now rid q q"
      using True still by (simp add: approve_effect_def cur_def)
    show ?thesis by (rule final[OF tr' eff]) auto
  next
    case False
    then have np: "\<not> pending_at d' rid cur" using still by simp
    from False have sp: "stillPending q steps acts = []" by simp
    show ?thesis
    proof (cases "findNextStepOrder d rid cur")
      case None
      let ?q' = "q\<lparr> q_current_status := ''approved'', q_is_completed := True,
                    q_completed_at := Some now \<rparr>"
      have "db_requests d' = update_request rid
              (\<lambda>q. q\<lparr> q_current_status := ''approved'', q_is_completed := True,
                       q_completed_at := Some now \<rparr>) (db_requests d)"
        unfolding d' using sp None[unfolded cur_def] by (rule approve_transaction_complete)
      then have tr': "the_request d' rid = Some ?q'"
        using tr by (simp add: the_request_def find_update_request)
      have "\<forall>m. cur < m \<longrightarrow> \<not> pending_at d' rid m"
        using None later by (simp add: findNextStepOrder_None)
      then have eff: "approve_effect d' now rid q ?q'"
        using np by (simp add: approve_effect_def cur_def)
      show ?thesis by (rule final[OF tr' eff]) auto
    next
      case (Some n)
      let ?q' = "q\<lparr> q_current_step := n \<rparr>"
      have "db_requests d' = update_request rid (\<lambda>q. q\<lparr> q_current_step := n \<rparr>) (db_requests d)"
        unfolding d' using sp Some[unfolded cur_def] by (rule approve_transaction_advance)
      then have tr': "the_request d' rid = Some ?q'"
        using tr by (simp add: the_request_def find_update_request)
      from Some have npo: "next_pending_order d rid cur n" by (rule findNextStepOrder_Some)
      then have npo': "next_pending_order d' rid cur n"
        unfolding next_pending_order_def using later by auto
      then have eff: "approve_effect d' now rid q ?q'"
        using np unfolding approve_effect_def cur_def by auto
      have le: "q_current_step q \<le> q_current_step ?q'"
        using npo' by (simp add: next_pending_order_def cur_def)
      have past: "\<forall>m. q_current_step q \<le> m \<and> m < q_current_step ?q' \<longrightarrow> \<not> pending_at d' rid m"
      proof (intro allI impI)
        fix m assume m: "q_current_step q \<le> m \<and> m < q_current_step ?q'"
        show "\<not> pending_at d' rid m"
        proof (cases "m = cur")
          case True with np show ?thesis by simp
        next
          case False
          with m have "cur < m \<and> m < n" by (simp add: cur_def)
          with npo' show ?thesis by (simp add: next_pending_order_def)
        qed
      qed
      show ?thesis by (rule final[OF tr' eff le past])
    qed
  qed
qed


text \<open>A call of \<open>approveStep\<close> that returns without the note of the already-approved
  branch, on a store no other call changes between its reads and its transaction.
  The steps it acts on, and only those, are approved and stamped with the actor, and
  there is at least one. A step of the current order is pending afterwards exactly
  when one was pending before that the call did not act on. The request row is then
  as \<open>approve_effect\<close> says; \<open>current_step\<close> has not decreased; and no order from the
  old \<open>current_step\<close> up to the new one (exclusive) has a pending step. Step
  identifiers are the table's primary key.\<close>

lemma approve_transition_alone:
  assumes dist: "distinct (map s_id (db_steps d))"
    and ok: "approveStep d now rid actorId remarks = Inr (d', res)"
    and nt: "ar_note res = None"
  shows "\<exists>q q'. the_request d rid = Some q \<and> the_request d' rid = Some q' \<and>
           q_current_status q = ''in_progress'' \<and>
           db_steps d' =
             map (\<lambda>s. if acted_on d actorId now q s then approve_data now remarks actorId s else s)
               (db_steps d) \<and>
           (\<exists>s \<in> set (db_steps d). acted_on d actorId now q s) \<and>
           pending_at d' rid (q_current_step q) =
             (\<exists>s \<in> set (db_steps d). s_approval_request_id s = rid \<and>
                s_step_order s = q_current_step q \<and> s_status s = ''pending'' \<and>
                \<not> acted_on d actorId now q s) \<and>
           approve_effect d' now rid q q' \<and>
           q_current_step q \<le> q_current_step q' \<and>
           (\<forall>m. q_current_step q \<le> m \<and> m < q_current_step q' \<longrightarrow> \<not> pending_at d' rid m)"
proof -
  from approve_transition_request[OF dist ok nt] obtain q q' where
    a: "the_request d rid = Some q" "the_request d' rid = Some q'"
       "q_current_status q = ''in_progress''" "approve_effect d' now rid q q'"
       "q_current_step q \<le> q_current_step q'"
       "\<forall>m. q_current_step q \<le> m \<and> m < q_current_step q' \<longrightarrow> \<not> pending_at d' rid m"
    by (elim exE conjE)
  from approve_transition_steps[OF dist ok nt] obtain q0 where
    b0: "the_request d rid = Some q0"
       "db_steps d' =
          map (\<lambda>s. if acted_on d actorId now q0 s then approve_data now remarks actorId s else s)
            (db_steps d)"
       "\<exists>s \<in> set (db_steps d). acted_on d actorId now q0 s"
       "pending_at d' rid (q_current_step q0) =
          (\<exists>s \<in> set (db_steps d). s_approval_request_id s = rid \<and>
             s_step_order s = q_current_step q0 \<and> s_status s = ''pending'' \<and>
             \<not> acted_on d actorId now q0 s)"
    by (elim exE conjE)
  from a(1) b0(1) have e: "q0 = q" by simp
  note b = b0[unfolded e]
  show ?thesis
  proof (intro exI conjI)
    show "the_request d rid = Some q" by (fact a(1))
    show "the_request d' rid = Some q'" by (fact a(2))
    show "q_current_status q = ''in_progress''" by (fact a(3))
    show "db_steps d' =
          map (\<lambda>s. if acted_on d actorId now q s then approve_data now remarks actorId s else s)
            (db_steps d)" by (fact b(2))
    show "\<exists>s \<in> set (db_steps d). acted_on d actorId now q s" by (fact b(3))
    show "pending_at d' rid (q_current_step q) =
          (\<exists>s \<in> set (db_steps d). s_approval_request_id s = rid \<and>
             s_step_order s = q_current_step q \<and> s_status s = ''pending'' \<and>
             \<not> acted_on d actorId now q s)" by (fact b(4))
    show "approve_effect d' now rid q q'" by (fact a(4))
    show "q_current_step q \<le> q_current_step q'" by (fact a(5))
    show "\<forall>m. q_current_step q \<le> m \<and> m < q_current_step q' \<longrightarrow> \<not> pending_at d' rid m"
      by (fact a(6))
  qed
qed

lemmas approve_simps = approveStep_def findUserById_def findRequestWithSteps_def
  findRequestById_def isAdmin_def roles_code_def roles_of_def delegatorIds_def
  findDelegationsForInbox_def approve_actable_def approve_alreadyDone_def
  approve_transaction_def stillPending_def findNextStepOrder_def approve_update_def
  approve_data_def update_request_def or_null_def truthy_def Let_def


lemma ex_distinct_steps: "distinct (map s_id (db_steps ex_db))"
  by (simp add: ex_simps)

text \<open>On the example store the ERP administrator, user 40, approves both parallel steps
  of request 2 at once, and the request advances to step order 2.\<close>

lemma ex_approve_40:
  "\<exists>d' res q'. approveStep ex_db 1000 2 40 None = Inr (d', res) \<and> ar_note res = None \<and>
      ar_currentStep res = Some 2 \<and> ar_currentStatus res = ''in_progress'' \<and>
      the_request d' 2 = Some q' \<and> q_current_step q' = 2 \<and>
      map s_status (db_steps d') = [''pending'', ''approved'', ''approved'', ''pending'']"
  by (simp add: approve_simps the_request_def ex_simps)

lemma approve_transition_alone_example:
  "\<exists>d' res q q'. approveStep ex_db 1000 2 40 None = Inr (d', res) \<and> ar_note res = None \<and>
      the_request ex_db 2 = Some q \<and> the_request d' 2 = Some q' \<and>
      q_current_step q = 1 \<and> q_current_step q' = 2 \<and>
      \<not> pending_at d' 2 1 \<and> approve_effect d' 1000 2 q q' \<and>
      map s_status (db_steps d') = [''pending'', ''approved'', ''approved'', ''pending'']"
proof -
  from ex_approve_40 obtain d' res q2 where
    e: "approveStep ex_db 1000 2 40 None = Inr (d', res)" "ar_note res = None"
       "the_request d' 2 = Some q2" "q_current_step q2 = 2"
       "map s_status (db_steps d') = [''pending'', ''approved'', ''approved'', ''pending'']"
    by (elim exE conjE)
  from approve_transition_alone[OF ex_distinct_steps e(1) e(2)] obtain q q' where
    c: "the_request ex_db 2 = Some q" "the_request d' 2 = Some q'"
       "approve_effect d' 1000 2 q q'"
       "\<forall>m. q_current_step q \<le> m \<and> m < q_current_step q' \<longrightarrow> \<not> pending_at d' 2 m"
    by (elim exE conjE)
  from c(2) e(3) have q': "q' = q2" by simp
  have q1: "q_current_step q = 1" using c(1) by (auto simp: the_request_def ex_simps)
  have np: "\<not> pending_at d' 2 1" using c(4) q1 q' e(4) by simp
  show ?thesis
  proof (intro exI conjI)
    show "approveStep ex_db 1000 2 40 None = Inr (d', res)" by (fact e(1))
    show "ar_note res = None" by (fact e(2))
    show "the_request ex_db 2 = Some q" by (fact c(1))
    show "the_request d' 2 = Some q'" by (fact c(2))
    show "q_current_step q = 1" by (fact q1)
    show "q_current_step q' = 2" using q' e(4) by simp
    show "\<not> pending_at d' 2 1" by (fact np)
    show "approve_effect d' 1000 2 q q'" by (fact c(3))
    show "map s_status (db_steps d') = [''pending'', ''approved'', ''approved'', ''pending'']"
      by (fact e(5))
  qed
qed

text \<open>Two approvers of the parallel group of request 2, the reads of both made before
  either transaction.\<close>

lemmas approve_read_simps = approve_read_def findUserById_def findRequestWithSteps_def
  findRequestById_def isAdmin_def roles_code_def roles_of_def delegatorIds_def
  findDelegationsForInbox_def approve_actable_def approve_alreadyDone_def Let_def

lemma ex_read_21:
  "approve_read ex_db 200000 2 21 =
     Inr (Run_transaction (ex_requests ! 1) [ex_steps ! 1, ex_steps ! 2, ex_steps ! 3]
            [ex_steps ! 1])"
  by (simp add: approve_read_simps ex_simps)

lemma ex_read_31:
  "approve_read ex_db 200000 2 31 =
     Inr (Run_transaction (ex_requests ! 1) [ex_steps ! 1, ex_steps ! 2, ex_steps ! 3]
            [ex_steps ! 2])"
  by (simp add: approve_read_simps ex_simps)

text \<open>C2 fails on the code when two approvers of one parallel group act at the same
  time. Request 2 is \<open>in_progress\<close> at step order 1 with two pending steps there: step
  2 for the project managers and step 3 for user 31; step 4 waits at order 2. At time
  200000 (the delegation of user 20 has ended) user 21, a project manager, and user
  31 both call \<open>approveStep\<close>, and both calls make their reads before either
  transaction starts. The transaction of user 21 approves step 2 and finds step 3
  pending among the rows it read; the transaction of user 31 then approves step 3
  and finds step 2 pending among the rows it read. Both stay and both succeed.
  Afterwards no step of order 1 is pending, yet the request is still \<open>in_progress\<close>
  at \<open>current_step\<close> 1, neither advanced to order 2, whose step is pending, nor
  completed; and no later approve moves it: the administrator, user 40, is answered
  403. The same two calls made one after the other advance the request to order 2.\<close>

theorem C2_interleaved_approvals_stall:
  "(\<exists>qA stepsA actsA qB stepsB actsB d1 resA d2 resB q2.
      approve_read ex_db 200000 2 21 = Inr (Run_transaction qA stepsA actsA) \<and>
      approve_read ex_db 200000 2 31 = Inr (Run_transaction qB stepsB actsB) \<and>
      stillPending qA stepsA actsA \<noteq> [] \<and> stillPending qB stepsB actsB \<noteq> [] \<and>
      approve_transaction ex_db 200000 2 21 None qA stepsA actsA = (d1, resA) \<and>
      approve_transaction d1 200000 2 31 None qB stepsB actsB = (d2, resB) \<and>
      ar_note resA = None \<and> ar_note resB = None \<and>
      the_request d2 2 = Some q2 \<and> q_current_step q2 = 1 \<and>
      q_current_status q2 = ''in_progress'' \<and> \<not> q_is_completed q2 \<and>
      \<not> pending_at d2 2 1 \<and> pending_at d2 2 2 \<and>
      approveStep d2 200000 2 40 None = Inl (AppError 403)) \<and>
   (\<exists>s1 r1 s2 r2 q2.
      approveStep ex_db 200000 2 21 None = Inr (s1, r1) \<and>
      approveStep s1 200000 2 31 None = Inr (s2, r2) \<and>
      the_request s2 2 = Some q2 \<and> q_current_step q2 = 2 \<and> \<not> pending_at s2 2 1)"
proof -
  have 1: "\<exists>qA stepsA actsA qB stepsB actsB d1 resA d2 resB q2.
      approve_read ex_db 200000 2 21 = Inr (Run_transaction qA stepsA actsA) \<and>
      approve_read ex_db 200000 2 31 = Inr (Run_transaction qB stepsB actsB) \<and>
      stillPending qA stepsA actsA \<noteq> [] \<and> stillPending qB stepsB actsB \<noteq> [] \<and>
      approve_transaction ex_db 200000 2 21 None qA stepsA actsA = (d1, resA) \<and>
      approve_transaction d1 200000 2 31 None qB stepsB actsB = (d2, resB) \<and>
      ar_note resA = None \<and> ar_note resB = None \<and>
      the_request d2 2 = Some q2 \<and> q_current_step q2 = 1 \<and>
      q_current_status q2 = ''in_progress'' \<and> \<not> q_is_completed q2 \<and>
      \<not> pending_at d2 2 1 \<and> pending_at d2 2 2 \<and>
      approveStep d2 200000 2 40 None = Inl (AppError 403)"
    unfolding ex_read_21 ex_read_31
    by (simp add: approve_simps the_request_def pending_at_def ex_simps)
  have 2: "\<exists>s1 r1 s2 r2 q2.
      approveStep ex_db 200000 2 21 None = Inr (s1, r1) \<and>
      approveStep s1 200000 2 31 None = Inr (s2, r2) \<and>
      the_request s2 2 = Some q2 \<and> q_current_step q2 = 2 \<and> \<not> pending_at s2 2 1"
    by (simp add: approve_simps the_request_def pending_at_def ex_simps)
  from 1 2 show ?thesis by (rule conjI)
qed


subsection \<open>Approving again\<close>

lemma approve_transaction_frame:
  "db_users (fst (approve_transaction d now rid actorId remarks q steps acts)) = db_users d"
  "db_roles (fst (approve_transaction d now rid actorId remarks q steps acts)) = db_roles d"
  "db_delegations (fst (approve_transaction d now rid actorId remarks q steps acts)) = db_delegations d"
  "db_matrices (fst (approve_transaction d now rid actorId remarks q steps acts)) = db_matrices d"
  by (cases "findNextStepOrder d rid (q_current_step q)";
      simp add: approve_transaction_def Let_def)+

lemma approve_transaction_stay_result:
  assumes "stillPending q steps acts \<noteq> []"
  shows "snd (approve_transaction d now rid actorId remarks q steps acts) =
           \<lparr> ar_approvalRequestId = rid, ar_currentStatus = q_current_status q,
             ar_currentStep = Some (q_current_step q), ar_note = None \<rparr>"
  using assms by (simp add: approve_transaction_def Let_def)

lemma isAdmin_cong:
  "db_roles d1 = db_roles d \<Longrightarrow> isAdmin d1 actor = isAdmin d actor"
proof -
  assume "db_roles d1 = db_roles d"
  then have "roles_of d1 actor = roles_of d actor"
    by (cases "u_role_id actor") (simp_all add: roles_of_def)
  then show ?thesis by (simp add: isAdmin_def roles_code_def)
qed

lemma approve_actable_mono:
  assumes "db_roles d1 = db_roles d" and "set dIds2 \<subseteq> set dIds"
    and "approve_actable d1 actor actorId dIds2 q s"
  shows "approve_actable d actor actorId dIds q s"
  using assms(2,3) isAdmin_cong[OF assms(1), of actor]
  by (auto simp: approve_actable_def split: if_splits option.splits)

text \<open>When an approve transition leaves a step of the current order pending, a second
  call by the same actor answers with the note of the already-approved branch and
  changes nothing.\<close>

lemma reapprove_parallel_wait:
  assumes first: "approveStep d now rid actorId remarks = Inr (d1, r1)"
    and note1: "ar_note r1 = None"
    and wait: "\<exists>q. the_request d rid = Some q \<and> pending_at d1 rid (q_current_step q)"
    and dels: "set (delegatorIds d1 actorId now2) \<subseteq> set (delegatorIds d actorId now)"
  shows "approveStep d1 now2 rid actorId remarks2 =
           Inr (d1, \<lparr> ar_approvalRequestId = rid,
                      ar_currentStatus = ar_currentStatus r1,
                      ar_currentStep = ar_currentStep r1,
                      ar_note = Some ''Already approved at this step'' \<rparr>)"
proof -
  from first note1 obtain actor q steps where
    u: "findUserById d actorId = Some actor" and
    r: "findRequestWithSteps d rid = Some (q, steps)" and
    st: "q_current_status q = ''in_progress''" and
    ne: "filter (approve_actable d actor actorId (delegatorIds d actorId now) q) steps \<noteq> []" and
    tx: "(d1, r1) = approve_transaction d now rid actorId remarks q steps
           (filter (approve_actable d actor actorId (delegatorIds d actorId now) q) steps)"
    by (rule approveStep_transition)
  define acts where "acts = filter (approve_actable d actor actorId (delegatorIds d actorId now) q) steps"
  have d1: "d1 = fst (approve_transaction d now rid actorId remarks q steps acts)"
    using arg_cong[OF tx, of fst] unfolding acts_def by simp
  have r1: "r1 = snd (approve_transaction d now rid actorId remarks q steps acts)"
    using arg_cong[OF tx, of snd] unfolding acts_def by simp
  note rq = findRequestWithSteps_Some[OF r]
  from wait rq(1) have pw: "pending_at d1 rid (q_current_step q)"
    by (simp add: the_request_def)
  have sp: "stillPending q steps acts \<noteq> []"
    using pw stillPending_iff[OF rq(3), of q acts now actorId remarks] unfolding d1 by simp
  have req1: "db_requests d1 = db_requests d"
    unfolding d1 using sp by (rule approve_transaction_stay)
  have res1: "r1 = \<lparr> ar_approvalRequestId = rid, ar_currentStatus = q_current_status q,
             ar_currentStep = Some (q_current_step q), ar_note = None \<rparr>"
    unfolding r1 using sp by (rule approve_transaction_stay_result)
  have steps1: "db_steps d1 =
      map (\<lambda>s. if s_id s \<in> s_id ` set acts then approve_data now remarks actorId s else s) (db_steps d)"
    unfolding d1 by (rule approve_transaction_steps)
  have fr: "db_users d1 = db_users d" "db_roles d1 = db_roles d"
    unfolding d1 by (rule approve_transaction_frame)+
  have u1: "findUserById d1 actorId = Some actor"
    using u fr by (simp add: findUserById_def)
  define steps2 where
    "steps2 = sort_key s_step_order (filter (\<lambda>s. s_approval_request_id s = q_id q) (db_steps d1))"
  have rq1: "findRequestWithSteps d1 rid = Some (q, steps2)"
    using rq(1) req1 by (simp add: findRequestWithSteps_def findRequestById_def steps2_def)
  have set2: "set steps2 = {s \<in> set (db_steps d1). s_approval_request_id s = rid}"
    unfolding steps2_def using rq(2) by auto
  have nb: "\<not> (q_requested_by q = actorId \<and> \<not> isAdmin d1 actor)"
  proof -
    from first u r st have "\<not> (q_requested_by q = actorId \<and> \<not> isAdmin d actor)"
      by (cases "q_requested_by q = actorId \<and> \<not> isAdmin d actor")
         (simp_all add: approveStep_def)
    then show ?thesis using isAdmin_cong[OF fr(2), of actor] by simp
  qed
  have acts_in: "\<And>a. a \<in> set acts \<Longrightarrow>
       a \<in> set (db_steps d) \<and> s_approval_request_id a = rid \<and> s_step_order a = q_current_step q"
    unfolding acts_def using rq(3) by (auto simp: approve_actable_def split: if_splits)
  have none2: "filter (approve_actable d1 actor actorId (delegatorIds d1 actorId now2) q) steps2 = []"
  proof (rule ccontr)
    assume "filter (approve_actable d1 actor actorId (delegatorIds d1 actorId now2) q) steps2 \<noteq> []"
    then obtain s1 where s1: "s1 \<in> set steps2"
      "approve_actable d1 actor actorId (delegatorIds d1 actorId now2) q s1"
      by (auto simp: filter_empty_conv)
    from s1(2) have p1: "s_status s1 = ''pending''"
      by (auto simp: approve_actable_def split: if_splits)
    from s1(1) set2 have "s1 \<in> set (db_steps d1)" "s_approval_request_id s1 = rid" by auto
    then obtain s where s: "s \<in> set (db_steps d)"
      "s1 = (if s_id s \<in> s_id ` set acts then approve_data now remarks actorId s else s)"
      unfolding steps1 by auto
    have nin: "s_id s \<notin> s_id ` set acts"
    proof
      assume "s_id s \<in> s_id ` set acts"
      with s(2) have "s_status s1 = ''approved''" by (simp add: approve_data_def)
      with p1 show False by simp
    qed
    with s(2) have e: "s1 = s" by simp
    from s1(2) e have "approve_actable d actor actorId (delegatorIds d actorId now) q s"
      using approve_actable_mono[OF fr(2) dels] by blast
    moreover have "s \<in> set steps"
      using s(1) e \<open>s_approval_request_id s1 = rid\<close> rq(3) by simp
    ultimately have "s \<in> set acts" unfolding acts_def by simp
    with nin show False by blast
  qed
  have done2: "find (approve_alreadyDone actor actorId q) steps2 \<noteq> None"
  proof -
    from ne have "acts \<noteq> []" unfolding acts_def .
    then obtain a where a: "a \<in> set acts" by (cases acts) auto
    note ai = acts_in[OF a]
    let ?a1 = "approve_data now remarks actorId a"
    have "?a1 \<in> set (db_steps d1)"
      unfolding steps1 using ai a by (auto simp: image_iff intro!: bexI[of _ a])
    moreover have "s_approval_request_id ?a1 = rid" using ai by (simp add: approve_data_def)
    ultimately have "?a1 \<in> set steps2" using set2 by simp
    moreover have "approve_alreadyDone actor actorId q ?a1"
      using ai by (simp add: approve_alreadyDone_def approve_data_def)
    ultimately show ?thesis by (auto simp: find_None_iff)
  qed
  then obtain x where x: "find (approve_alreadyDone actor actorId q) steps2 = Some x" by blast
  show ?thesis
    using u1 rq1 st nb none2 x res1
    by (simp add: approveStep_def Let_def)
qed


text \<open>When an approve transition completed the request, the request row is \<open>approved\<close>
  and completed, and a second call is answered 409.\<close>

lemma reapprove_completed:
  assumes first: "approveStep d now rid actorId remarks = Inr (d1, r1)"
    and note1: "ar_note r1 = None"
    and compl: "ar_currentStatus r1 = ''approved''"
  shows "approveStep d1 now2 rid actorId remarks2 = Inl (AppError 409)"
    and "\<exists>q1. the_request d1 rid = Some q1 \<and> q_current_status q1 = ''approved'' \<and>
           q_is_completed q1"
proof -
  from first note1 obtain actor q steps where
    u: "findUserById d actorId = Some actor" and
    r: "findRequestWithSteps d rid = Some (q, steps)" and
    st: "q_current_status q = ''in_progress''" and
    tx: "(d1, r1) = approve_transaction d now rid actorId remarks q steps
           (filter (approve_actable d actor actorId (delegatorIds d actorId now) q) steps)"
    by (rule approveStep_transition)
  define acts where "acts = filter (approve_actable d actor actorId (delegatorIds d actorId now) q) steps"
  have d1: "d1 = fst (approve_transaction d now rid actorId remarks q steps acts)"
    using arg_cong[OF tx, of fst] unfolding acts_def by simp
  have r1: "r1 = snd (approve_transaction d now rid actorId remarks q steps acts)"
    using arg_cong[OF tx, of snd] unfolding acts_def by simp
  note rq = findRequestWithSteps_Some[OF r]
  have sp: "stillPending q steps acts = []"
  proof (rule ccontr)
    assume "stillPending q steps acts \<noteq> []"
    then have "ar_currentStatus r1 = q_current_status q"
      unfolding r1 by (simp add: approve_transaction_stay_result)
    with compl st show False by simp
  qed
  have nx: "findNextStepOrder d rid (q_current_step q) = None"
  proof (cases "findNextStepOrder d rid (q_current_step q)")
    case None then show ?thesis .
  next
    case (Some n)
    with sp have "ar_currentStatus r1 = q_current_status q"
      unfolding r1 by (simp add: approve_transaction_def Let_def)
    with compl st show ?thesis by simp
  qed
  let ?q1 = "q\<lparr> q_current_status := ''approved'', q_is_completed := True,
                 q_completed_at := Some now \<rparr>"
  have "db_requests d1 = update_request rid
          (\<lambda>q. q\<lparr> q_current_status := ''approved'', q_is_completed := True,
                   q_completed_at := Some now \<rparr>) (db_requests d)"
    unfolding d1 using sp nx by (rule approve_transaction_complete)
  then have f1: "find (\<lambda>q. q_id q = rid) (db_requests d1) = Some ?q1"
    using rq(1) by (simp add: find_update_request)
  then have rq1: "findRequestWithSteps d1 rid =
      Some (?q1, sort_key s_step_order
                   (filter (\<lambda>s. s_approval_request_id s = q_id ?q1) (db_steps d1)))"
    by (simp add: findRequestWithSteps_def findRequestById_def)
  have "db_users d1 = db_users d" unfolding d1 by (rule approve_transaction_frame)
  with u have u1: "findUserById d1 actorId = Some actor" by (simp add: findUserById_def)
  show "approveStep d1 now2 rid actorId remarks2 = Inl (AppError 409)"
    using u1 rq1 by (simp add: approveStep_def)
  show "\<exists>q1. the_request d1 rid = Some q1 \<and> q_current_status q1 = ''approved'' \<and>
           q_is_completed q1"
    using f1 by (simp add: the_request_def)
qed

text \<open>C8 as amended. After an approve transition: when a step of the current order is
  still pending (parallel wait), a second call by the same actor, at any time at which
  the actor stands in for no delegator it did not stand in for before, returns the
  same status and current step with the note of the already-approved branch, and the
  store is the one the first call left; when the transition completed the request,
  a second call is answered 409.\<close>

theorem C8_reapprove:
  assumes first: "approveStep d now rid actorId remarks = Inr (d1, r1)"
    and note1: "ar_note r1 = None"
  shows "((\<exists>q. the_request d rid = Some q \<and> pending_at d1 rid (q_current_step q)) \<and>
          set (delegatorIds d1 actorId now2) \<subseteq> set (delegatorIds d actorId now) \<longrightarrow>
            approveStep d1 now2 rid actorId remarks2 =
              Inr (d1, \<lparr> ar_approvalRequestId = rid,
                         ar_currentStatus = ar_currentStatus r1,
                         ar_currentStep = ar_currentStep r1,
                         ar_note = Some ''Already approved at this step'' \<rparr>)) \<and>
         (ar_currentStatus r1 = ''approved'' \<longrightarrow>
            approveStep d1 now2 rid actorId remarks2 = Inl (AppError 409) \<and>
            (\<exists>q1. the_request d1 rid = Some q1 \<and> q_current_status q1 = ''approved'' \<and>
               q_is_completed q1))"
proof (intro conjI impI)
  assume a: "(\<exists>q. the_request d rid = Some q \<and> pending_at d1 rid (q_current_step q)) \<and>
          set (delegatorIds d1 actorId now2) \<subseteq> set (delegatorIds d actorId now)"
  from a have w: "\<exists>q. the_request d rid = Some q \<and> pending_at d1 rid (q_current_step q)" ..
  from a have s: "set (delegatorIds d1 actorId now2) \<subseteq> set (delegatorIds d actorId now)" ..
  from first note1 w s
  show "approveStep d1 now2 rid actorId remarks2 =
              Inr (d1, \<lparr> ar_approvalRequestId = rid,
                         ar_currentStatus = ar_currentStatus r1,
                         ar_currentStep = ar_currentStep r1,
                         ar_note = Some ''Already approved at this step'' \<rparr>)"
    by (rule reapprove_parallel_wait)
next
  assume c: "ar_currentStatus r1 = ''approved''"
  from first note1 c show "approveStep d1 now2 rid actorId remarks2 = Inl (AppError 409)"
    by (rule reapprove_completed(1))
  from first note1 c
  show "\<exists>q1. the_request d1 rid = Some q1 \<and> q_current_status q1 = ''approved'' \<and>
               q_is_completed q1"
    by (rule reapprove_completed(2))
qed

text \<open>C8 as stated fails: after the approve that completes request 1, the same call
  again is answered 409.\<close>

theorem C8_reapprove_counterexample:
  "(case approveStep ex_db 1000 1 20 None of
      Inl e \<Rightarrow> False
    | Inr (d1, r1) \<Rightarrow>
        ar_note r1 = None \<and> ar_currentStatus r1 = ''approved'' \<and>
        approveStep d1 2000 1 20 None = Inl (AppError 409))"
  by (simp add: approve_simps ex_simps)

lemma ex_approve_21:
  "\<exists>d1 r1. approveStep ex_db 1000 2 21 None = Inr (d1, r1) \<and> ar_note r1 = None \<and>
      ar_currentStep r1 = Some 1 \<and> ar_currentStatus r1 = ''in_progress'' \<and>
      pending_at d1 2 1 \<and> delegatorIds d1 21 2000 = []"
  by (simp add: approve_simps pending_at_def ex_simps)

lemma ex_approve_20:
  "\<exists>d1 r1. approveStep ex_db 1000 1 20 None = Inr (d1, r1) \<and> ar_note r1 = None \<and>
      ar_currentStatus r1 = ''approved''"
  by (simp add: approve_simps ex_simps)

theorem C8_reapprove_witness:
  "(\<exists>d1 r1. approveStep ex_db 1000 2 21 None = Inr (d1, r1) \<and> ar_note r1 = None \<and>
      (\<exists>q. the_request ex_db 2 = Some q \<and> pending_at d1 2 (q_current_step q)) \<and>
      set (delegatorIds d1 21 2000) \<subseteq> set (delegatorIds ex_db 21 1000) \<and>
      approveStep d1 2000 2 21 (Some ''again'') =
        Inr (d1, \<lparr> ar_approvalRequestId = 2, ar_currentStatus = ''in_progress'',
                   ar_currentStep = Some 1,
                   ar_note = Some ''Already approved at this step'' \<rparr>)) \<and>
   (\<exists>d1 r1 q1. approveStep ex_db 1000 1 20 None = Inr (d1, r1) \<and> ar_note r1 = None \<and>
      ar_currentStatus r1 = ''approved'' \<and>
      approveStep d1 2000 1 20 (Some ''again'') = Inl (AppError 409) \<and>
      the_request d1 1 = Some q1 \<and> q_current_status q1 = ''approved'' \<and> q_is_completed q1)"
proof -
  from ex_approve_21 obtain d1 r1 where
    e: "approveStep ex_db 1000 2 21 None = Inr (d1, r1)" "ar_note r1 = None"
       "ar_currentStep r1 = Some 1" "ar_currentStatus r1 = ''in_progress''"
       "pending_at d1 2 1" "delegatorIds d1 21 2000 = []"
    by (elim exE conjE)
  have q: "the_request ex_db 2 = Some (ex_requests ! 1)" "q_current_step (ex_requests ! 1) = 1"
    by (simp_all add: the_request_def ex_simps)
  have w: "\<exists>q. the_request ex_db 2 = Some q \<and> pending_at d1 2 (q_current_step q)"
    using q e(5) by simp
  have s: "set (delegatorIds d1 21 2000) \<subseteq> set (delegatorIds ex_db 21 1000)"
    using e(6) by simp
  have r: "approveStep d1 2000 2 21 (Some ''again'') =
        Inr (d1, \<lparr> ar_approvalRequestId = 2, ar_currentStatus = ''in_progress'',
                   ar_currentStep = Some 1,
                   ar_note = Some ''Already approved at this step'' \<rparr>)"
    using C8_reapprove[OF e(1) e(2), of 2000 "Some ''again''"] w s e(3) e(4) by simp
  have 1: "\<exists>d1 r1. approveStep ex_db 1000 2 21 None = Inr (d1, r1) \<and> ar_note r1 = None \<and>
      (\<exists>q. the_request ex_db 2 = Some q \<and> pending_at d1 2 (q_current_step q)) \<and>
      set (delegatorIds d1 21 2000) \<subseteq> set (delegatorIds ex_db 21 1000) \<and>
      approveStep d1 2000 2 21 (Some ''again'') =
        Inr (d1, \<lparr> ar_approvalRequestId = 2, ar_currentStatus = ''in_progress'',
                   ar_currentStep = Some 1,
                   ar_note = Some ''Already approved at this step'' \<rparr>)"
  proof (intro exI conjI)
    show "approveStep ex_db 1000 2 21 None = Inr (d1, r1)" by (fact e(1))
    show "ar_note r1 = None" by (fact e(2))
    show "the_request ex_db 2 = Some (ex_requests ! 1)" by (fact q(1))
    show "pending_at d1 2 (q_current_step (ex_requests ! 1))" using e(5) q(2) by simp
    show "set (delegatorIds d1 21 2000) \<subseteq> set (delegatorIds ex_db 21 1000)" by (fact s)
    show "approveStep d1 2000 2 21 (Some ''again'') =
        Inr (d1, \<lparr> ar_approvalRequestId = 2, ar_currentStatus = ''in_progress'',
                   ar_currentStep = Some 1,
                   ar_note = Some ''Already approved at this step'' \<rparr>)" by (fact r)
  qed
  from ex_approve_20 obtain c1 t1 where
    f: "approveStep ex_db 1000 1 20 None = Inr (c1, t1)" "ar_note t1 = None"
       "ar_currentStatus t1 = ''approved''"
    by (elim exE conjE)
  from C8_reapprove[OF f(1) f(2), of 2000 "Some ''again''"] f(3)
  have g: "approveStep c1 2000 1 20 (Some ''again'') = Inl (AppError 409)"
    and "\<exists>q1. the_request c1 1 = Some q1 \<and> q_current_status q1 = ''approved'' \<and>
               q_is_completed q1"
    by simp_all
  then obtain q1 where
    h: "the_request c1 1 = Some q1" "q_current_status q1 = ''approved''" "q_is_completed q1"
    by (elim exE conjE)
  have 2: "\<exists>d1 r1 q1. approveStep ex_db 1000 1 20 None = Inr (d1, r1) \<and> ar_note r1 = None \<and>
      ar_currentStatus r1 = ''approved'' \<and>
      approveStep d1 2000 1 20 (Some ''again'') = Inl (AppError 409) \<and>
      the_request d1 1 = Some q1 \<and> q_current_status q1 = ''approved'' \<and> q_is_completed q1"
  proof (intro exI conjI)
    show "approveStep ex_db 1000 1 20 None = Inr (c1, t1)" by (fact f(1))
    show "ar_note t1 = None" by (fact f(2))
    show "ar_currentStatus t1 = ''approved''" by (fact f(3))
    show "approveStep c1 2000 1 20 (Some ''again'') = Inl (AppError 409)" by (fact g)
    show "the_request c1 1 = Some q1" by (fact h(1))
    show "q_current_status q1 = ''approved''" by (fact h(2))
    show "q_is_completed q1" by (fact h(3))
  qed
  from 1 2 show ?thesis by (rule conjI)
qed

subsection \<open>Delegations\<close>

lemma createDelegation_circular:
  assumes "delegates_back d now inp"
  shows "find (\<lambda>g. d_from_user g = di_toUser inp \<and> d_to_user g = di_fromUser inp \<and>
                    d_is_active g \<and> now \<le> d_end_date g) (db_delegations d) \<noteq> None"
  using assms unfolding delegates_back_def find_None_iff by blast

lemma createDelegation_overlap:
  assumes "overlaps_existing d inp"
  shows "find (\<lambda>g. d_from_user g = di_fromUser inp \<and> d_is_active g \<and>
                    d_start_date g \<le> di_endDate inp \<and> di_startDate inp \<le> d_end_date g)
           (db_delegations d) \<noteq> None"
proof -
  from assms obtain g t where g: "g \<in> set (db_delegations d)"
    "d_from_user g = di_fromUser inp" "d_is_active g"
    "in_window g t" "di_startDate inp \<le> t" "t \<le> di_endDate inp"
    unfolding overlaps_existing_def by blast
  then have "d_start_date g \<le> di_endDate inp" "di_startDate inp \<le> d_end_date g"
    by (auto simp: in_window_def)
  with g show ?thesis unfolding find_None_iff by blast
qed

lemma createDelegation_rejects:
  assumes "delegates_back d now inp \<or> overlaps_existing d inp"
  shows "\<exists>e. createDelegation d now inp = Inl e"
    and "di_fromUser inp \<noteq> di_toUser inp \<Longrightarrow> findUserById d (di_fromUser inp) \<noteq> None \<Longrightarrow>
         findUserById d (di_toUser inp) \<noteq> None \<Longrightarrow>
         createDelegation d now inp = Inl (AppError 409)"
proof -
  let ?c = "find (\<lambda>g. d_from_user g = di_toUser inp \<and> d_to_user g = di_fromUser inp \<and>
                    d_is_active g \<and> now \<le> d_end_date g) (db_delegations d)"
  let ?o = "find (\<lambda>g. d_from_user g = di_fromUser inp \<and> d_is_active g \<and>
                    d_start_date g \<le> di_endDate inp \<and> di_startDate inp \<le> d_end_date g)
           (db_delegations d)"
  have co: "?c \<noteq> None \<or> ?o \<noteq> None"
    using assms createDelegation_circular createDelegation_overlap by blast
  show *: "createDelegation d now inp = Inl (AppError 409)"
    if "di_fromUser inp \<noteq> di_toUser inp" "findUserById d (di_fromUser inp) \<noteq> None"
       "findUserById d (di_toUser inp) \<noteq> None"
  proof (cases ?c)
    case (Some c)
    with that show ?thesis by (simp add: createDelegation_def)
  next
    case None
    with co obtain ov where "?o = Some ov" by blast
    with None that show ?thesis by (simp add: createDelegation_def)
  qed
  show "\<exists>e. createDelegation d now inp = Inl e"
  proof (cases "di_fromUser inp \<noteq> di_toUser inp \<and> findUserById d (di_fromUser inp) \<noteq> None \<and>
                findUserById d (di_toUser inp) \<noteq> None")
    case True
    then show ?thesis using * by blast
  next
    case False
    then show ?thesis by (auto simp: createDelegation_def)
  qed
qed

lemma createDelegation_Inr:
  assumes "createDelegation d now inp = Inr (d', g)"
  shows "di_fromUser inp \<noteq> di_toUser inp"
    and "\<not> delegates_back d now inp"
    and "\<not> overlaps_existing d inp"
    and "g = \<lparr> d_id = next_id (map d_id (db_delegations d)),
               d_from_user = di_fromUser inp, d_to_user = di_toUser inp,
               d_start_date = di_startDate inp, d_end_date = di_endDate inp,
               d_is_active = True \<rparr>"
    and "d' = d\<lparr> db_delegations := db_delegations d @ [g] \<rparr>"
proof -
  show "\<not> delegates_back d now inp"
    using createDelegation_rejects(1)[of d now inp] assms by auto
  show "\<not> overlaps_existing d inp"
    using createDelegation_rejects(1)[of d now inp] assms by auto
  show ne: "di_fromUser inp \<noteq> di_toUser inp"
    using assms by (auto simp: createDelegation_def)
  have u: "findUserById d (di_fromUser inp) \<noteq> None" "findUserById d (di_toUser inp) \<noteq> None"
    using assms ne by (auto simp: createDelegation_def split: if_splits)
  let ?c = "find (\<lambda>g. d_from_user g = di_toUser inp \<and> d_to_user g = di_fromUser inp \<and>
                    d_is_active g \<and> now \<le> d_end_date g) (db_delegations d)"
  let ?o = "find (\<lambda>g. d_from_user g = di_fromUser inp \<and> d_is_active g \<and>
                    d_start_date g \<le> di_endDate inp \<and> di_startDate inp \<le> d_end_date g)
           (db_delegations d)"
  have c: "?c = None" using assms ne u by (cases ?c) (simp_all add: createDelegation_def)
  have o: "?o = None" using assms ne u c by (cases ?o) (simp_all add: createDelegation_def)
  from assms ne u c o
  show "g = \<lparr> d_id = next_id (map d_id (db_delegations d)),
               d_from_user = di_fromUser inp, d_to_user = di_toUser inp,
               d_start_date = di_startDate inp, d_end_date = di_endDate inp,
               d_is_active = True \<rparr>"
    by (simp add: createDelegation_def Let_def)
  from assms ne u c o show "d' = d\<lparr> db_delegations := db_delegations d @ [g] \<rparr>"
    by (auto simp: createDelegation_def Let_def)
qed

lemma no_overlap_snoc:
  assumes "no_overlap ds"
    and "\<And>h. h \<in> set ds \<Longrightarrow> d_from_user h = d_from_user g \<Longrightarrow> d_is_active h \<Longrightarrow>
            \<not> (\<exists>t. in_window h t \<and> in_window g t)"
  shows "no_overlap (ds @ [g])"
  unfolding no_overlap_def
proof (intro allI impI notI)
  fix i j
  assume i: "i < length (ds @ [g])" and j: "j < length (ds @ [g])"
    and h: "i \<noteq> j \<and> d_from_user ((ds @ [g]) ! i) = d_from_user ((ds @ [g]) ! j) \<and>
        d_is_active ((ds @ [g]) ! i) \<and> d_is_active ((ds @ [g]) ! j)"
    and t: "\<exists>t. in_window ((ds @ [g]) ! i) t \<and> in_window ((ds @ [g]) ! j) t"
  consider "i < length ds" "j < length ds" | "i < length ds" "j = length ds"
    | "i = length ds" "j < length ds"
    using i j h by (auto simp: less_Suc_eq)
  then show False
  proof cases
    case 1
    with h t assms(1) show False unfolding no_overlap_def by (auto simp: nth_append)
  next
    case 2
    then have "ds ! i \<in> set ds" by simp
    with 2 h t assms(2)[of "ds ! i"] show False by (auto simp: nth_append)
  next
    case 3
    then have "ds ! j \<in> set ds" by simp
    with 3 h t assms(2)[of "ds ! j"] show False by (auto simp: nth_append)
  qed
qed

lemma no_two_cycle_snoc:
  assumes "no_two_cycle ds now"
    and "d_from_user g \<noteq> d_to_user g"
    and "\<And>h. h \<in> set ds \<Longrightarrow> d_from_user h = d_to_user g \<Longrightarrow> d_to_user h = d_from_user g \<Longrightarrow>
            \<not> (\<exists>t. now \<le> t \<and> active_at h t)"
  shows "no_two_cycle (ds @ [g]) now"
  unfolding no_two_cycle_def
proof (intro ballI impI notI)
  fix a b
  assume a: "a \<in> set (ds @ [g])" and b: "b \<in> set (ds @ [g])"
    and c: "d_from_user a = d_to_user b \<and> d_to_user a = d_from_user b"
    and t: "\<exists>t. now \<le> t \<and> active_at a t \<and> active_at b t"
  consider "a \<in> set ds" "b \<in> set ds" | "a \<in> set ds" "b = g" | "a = g" "b \<in> set ds"
    | "a = g" "b = g"
    using a b by auto
  then show False
  proof cases
    case 1
    with c t assms(1) show False unfolding no_two_cycle_def by blast
  next
    case 2
    with c t assms(3)[of a] show False by auto
  next
    case 3
    with c t assms(3)[of b] show False by auto
  next
    case 4
    with c assms(2) show False by simp
  qed
qed

text \<open>The conflict answers and the two invariants.\<close>

lemma createDelegation_conflict_preserves:
  "(delegates_back d now inp \<or> overlaps_existing d inp \<longrightarrow>
      (\<exists>e. createDelegation d now inp = Inl e) \<and>
      (di_fromUser inp \<noteq> di_toUser inp \<and> findUserById d (di_fromUser inp) \<noteq> None \<and>
       findUserById d (di_toUser inp) \<noteq> None \<longrightarrow>
         createDelegation d now inp = Inl (AppError 409))) \<and>
   (\<forall>d' g. createDelegation d now inp = Inr (d', g) \<longrightarrow>
      (no_overlap (db_delegations d) \<longrightarrow> no_overlap (db_delegations d')) \<and>
      (no_two_cycle (db_delegations d) now \<longrightarrow> no_two_cycle (db_delegations d') now))"
proof (intro conjI allI impI)
  assume a: "delegates_back d now inp \<or> overlaps_existing d inp"
  show "\<exists>e. createDelegation d now inp = Inl e" using a by (rule createDelegation_rejects(1))
  assume "di_fromUser inp \<noteq> di_toUser inp \<and> findUserById d (di_fromUser inp) \<noteq> None \<and>
       findUserById d (di_toUser inp) \<noteq> None"
  then show "createDelegation d now inp = Inl (AppError 409)"
    using createDelegation_rejects(2)[OF a] by blast
next
  fix d' g
  assume ok: "createDelegation d now inp = Inr (d', g)"
  note r = createDelegation_Inr[OF ok]
  have ds': "db_delegations d' = db_delegations d @ [g]" using r(5) by simp
  have gf: "d_from_user g = di_fromUser inp" "d_to_user g = di_toUser inp"
    "d_start_date g = di_startDate inp" "d_end_date g = di_endDate inp"
    using r(4) by simp_all
  {
    assume inv: "no_overlap (db_delegations d)"
    show "no_overlap (db_delegations d')"
      unfolding ds'
    proof (rule no_overlap_snoc[OF inv])
      fix h assume h: "h \<in> set (db_delegations d)" "d_from_user h = d_from_user g" "d_is_active h"
      show "\<not> (\<exists>t. in_window h t \<and> in_window g t)"
      proof
        assume "\<exists>t. in_window h t \<and> in_window g t"
        then obtain t where "in_window h t" "di_startDate inp \<le> t" "t \<le> di_endDate inp"
          using gf by (auto simp: in_window_def)
        with h gf have "overlaps_existing d inp" unfolding overlaps_existing_def by auto
        with r(3) show False by simp
      qed
    qed
  }
  {
    assume inv: "no_two_cycle (db_delegations d) now"
    show "no_two_cycle (db_delegations d') now"
      unfolding ds'
    proof (rule no_two_cycle_snoc[OF inv])
      show "d_from_user g \<noteq> d_to_user g" using r(1) gf by simp
      fix h assume h: "h \<in> set (db_delegations d)" "d_from_user h = d_to_user g"
        "d_to_user h = d_from_user g"
      show "\<not> (\<exists>t. now \<le> t \<and> active_at h t)"
      proof
        assume "\<exists>t. now \<le> t \<and> active_at h t"
        then have "d_is_active h" "now \<le> d_end_date h"
          by (auto simp: active_at_def in_window_def)
        with h gf have "delegates_back d now inp" unfolding delegates_back_def by auto
        with r(2) show False by simp
      qed
    qed
  }
qed

text \<open>C10 as amended. \<open>createDelegation\<close> answers 400 when grantor and target are the
  same user, and 404 when they differ and one of them is not found active. It returns
  an error whenever the target has a delegation back to the grantor with the flag set
  that has not ended at the time of the call, or the requested period overlaps an
  active delegation of the grantor; that error is 409 once the two earlier checks
  pass. A successful call, on a store no other call changes meanwhile, appends one
  row and preserves both invariants, the one on 2-cycles over the times from the
  call on.\<close>

theorem C10_createDelegation:
  "(di_fromUser inp = di_toUser inp \<longrightarrow> createDelegation d now inp = Inl (AppError 400)) \<and>
   (di_fromUser inp \<noteq> di_toUser inp \<and>
    (findUserById d (di_fromUser inp) = None \<or> findUserById d (di_toUser inp) = None) \<longrightarrow>
      createDelegation d now inp = Inl (AppError 404)) \<and>
   (delegates_back d now inp \<or> overlaps_existing d inp \<longrightarrow>
      (\<exists>e. createDelegation d now inp = Inl e) \<and>
      (di_fromUser inp \<noteq> di_toUser inp \<and> findUserById d (di_fromUser inp) \<noteq> None \<and>
       findUserById d (di_toUser inp) \<noteq> None \<longrightarrow>
         createDelegation d now inp = Inl (AppError 409))) \<and>
   (\<forall>d' g. createDelegation d now inp = Inr (d', g) \<longrightarrow>
      (no_overlap (db_delegations d) \<longrightarrow> no_overlap (db_delegations d')) \<and>
      (no_two_cycle (db_delegations d) now \<longrightarrow> no_two_cycle (db_delegations d') now))"
proof -
  have 1: "di_fromUser inp = di_toUser inp \<longrightarrow> createDelegation d now inp = Inl (AppError 400)"
    by (simp add: createDelegation_def)
  have 2: "di_fromUser inp \<noteq> di_toUser inp \<and>
    (findUserById d (di_fromUser inp) = None \<or> findUserById d (di_toUser inp) = None) \<longrightarrow>
      createDelegation d now inp = Inl (AppError 404)"
    by (auto simp: createDelegation_def)
  note 3 = createDelegation_conflict_preserves[of d now inp]
  show ?thesis by (rule conjI[OF 1 conjI[OF 2 3]])
qed

lemma ex_createDelegation:
  "\<exists>d' g. createDelegation ex_db 1000 (ex_delegation_input 21 20 0 5000) = Inr (d', g)"
  by (simp add: createDelegation_def findUserById_def ex_delegation_input_def Let_def ex_simps)

theorem C10_createDelegation_witness:
  "createDelegation ex_db 1000 (ex_delegation_input 20 20 0 5000) = Inl (AppError 400) \<and>
   createDelegation ex_db 1000 (ex_delegation_input 20 99 0 5000) = Inl (AppError 404) \<and>
   createDelegation ex_db 1000 (ex_delegation_input 31 20 0 5000) = Inl (AppError 409) \<and>
   createDelegation ex_db 1000 (ex_delegation_input 20 21 50000 60000) = Inl (AppError 409) \<and>
   no_overlap (db_delegations ex_db) \<and> no_two_cycle (db_delegations ex_db) 1000 \<and>
   (\<exists>d' g. createDelegation ex_db 1000 (ex_delegation_input 21 20 0 5000) = Inr (d', g) \<and>
      no_overlap (db_delegations d') \<and> no_two_cycle (db_delegations d') 1000)"
proof -
  have b: "delegates_back ex_db 1000 (ex_delegation_input 31 20 0 5000)"
    by (simp add: delegates_back_def ex_delegation_input_def ex_simps)
  have o: "overlaps_existing ex_db (ex_delegation_input 20 21 50000 60000)"
    unfolding overlaps_existing_def
    by (simp add: ex_delegation_input_def in_window_def ex_simps) (rule exI[of _ 50000], simp)
  have u: "findUserById ex_db 31 \<noteq> None" "findUserById ex_db 20 \<noteq> None"
          "findUserById ex_db 21 \<noteq> None" "findUserById ex_db 99 = None"
    by (simp_all add: findUserById_def ex_simps)
  have s: "createDelegation ex_db 1000 (ex_delegation_input 20 20 0 5000) = Inl (AppError 400)"
    using C10_createDelegation[of "ex_delegation_input 20 20 0 5000" ex_db 1000]
    by (simp add: ex_delegation_input_def)
  have n: "createDelegation ex_db 1000 (ex_delegation_input 20 99 0 5000) = Inl (AppError 404)"
    using C10_createDelegation[of "ex_delegation_input 20 99 0 5000" ex_db 1000] u
    by (simp add: ex_delegation_input_def)
  have 1: "createDelegation ex_db 1000 (ex_delegation_input 31 20 0 5000) = Inl (AppError 409)"
    using C10_createDelegation[of "ex_delegation_input 31 20 0 5000" ex_db 1000] b u
    by (simp add: ex_delegation_input_def)
  have 2: "createDelegation ex_db 1000 (ex_delegation_input 20 21 50000 60000) = Inl (AppError 409)"
    using C10_createDelegation[of "ex_delegation_input 20 21 50000 60000" ex_db 1000] o u
    by (simp add: ex_delegation_input_def)
  have i1: "no_overlap (db_delegations ex_db)"
    by (simp add: no_overlap_def ex_simps)
  have i2: "no_two_cycle (db_delegations ex_db) 1000"
    by (simp add: no_two_cycle_def ex_simps)
  from ex_createDelegation obtain d' g where
    c: "createDelegation ex_db 1000 (ex_delegation_input 21 20 0 5000) = Inr (d', g)"
    by (elim exE)
  have p: "no_overlap (db_delegations d')" "no_two_cycle (db_delegations d') 1000"
    using C10_createDelegation[of "ex_delegation_input 21 20 0 5000" ex_db 1000] c i1 i2
    by blast+
  have 3: "\<exists>d' g. createDelegation ex_db 1000 (ex_delegation_input 21 20 0 5000) = Inr (d', g) \<and>
      no_overlap (db_delegations d') \<and> no_two_cycle (db_delegations d') 1000"
  proof (intro exI conjI)
    show "createDelegation ex_db 1000 (ex_delegation_input 21 20 0 5000) = Inr (d', g)" by (fact c)
    show "no_overlap (db_delegations d')" by (fact p(1))
    show "no_two_cycle (db_delegations d') 1000" by (fact p(2))
  qed
  show ?thesis by (rule conjI[OF s conjI[OF n conjI[OF 1 conjI[OF 2 conjI[OF i1 conjI[OF i2 3]]]]]])
qed


text \<open>C10 as stated fails. With user 20 deactivated while its delegation to user 31
  keeps its flag and has not ended, the call granting 31 \<rightarrow> 20 meets a target that
  delegates back and is answered 404, not 409: the user lookups come before the
  circular check. And with the delegation 20 \<rightarrow> 31 over the window from 0 to 500, the
  call granting 31 \<rightarrow> 20 over the window from 100 to 2000 at time 1000 succeeds: the
  circular check counts only delegations that have not ended at the time of the
  call, so the table then holds a 2-cycle whose two rows are both active at time
  300.\<close>

theorem C10_createDelegation_counterexample:
  "delegates_back ex_db_inactive_20 1000 (ex_delegation_input 31 20 0 5000) \<and>
   createDelegation ex_db_inactive_20 1000 (ex_delegation_input 31 20 0 5000) =
     Inl (AppError 404) \<and>
   (\<exists>d' g h. createDelegation ex_db_short_delegation 1000 (ex_delegation_input 31 20 100 2000) =
        Inr (d', g) \<and>
      g \<in> set (db_delegations d') \<and> h \<in> set (db_delegations d') \<and>
      d_from_user g = d_to_user h \<and> d_to_user g = d_from_user h \<and>
      active_at g 300 \<and> active_at h 300)"
proof -
  have 1: "delegates_back ex_db_inactive_20 1000 (ex_delegation_input 31 20 0 5000)"
    by (simp add: delegates_back_def ex_db_inactive_20_def ex_delegation_input_def ex_simps)
  have 2: "createDelegation ex_db_inactive_20 1000 (ex_delegation_input 31 20 0 5000) =
     Inl (AppError 404)"
    by (simp add: createDelegation_def findUserById_def ex_db_inactive_20_def
        ex_delegation_input_def ex_simps)
  have 3: "\<exists>d' g h. createDelegation ex_db_short_delegation 1000 (ex_delegation_input 31 20 100 2000) =
        Inr (d', g) \<and>
      g \<in> set (db_delegations d') \<and> h \<in> set (db_delegations d') \<and>
      d_from_user g = d_to_user h \<and> d_to_user g = d_from_user h \<and>
      active_at g 300 \<and> active_at h 300"
    apply (rule exI[of _ "ex_db_short_delegation\<lparr> db_delegations :=
             db_delegations ex_db_short_delegation @
               [\<lparr> d_id = 2, d_from_user = 31, d_to_user = 20, d_start_date = 100,
                  d_end_date = 2000, d_is_active = True \<rparr>] \<rparr>"])
    apply (rule exI[of _ "\<lparr> d_id = 2, d_from_user = 31, d_to_user = 20, d_start_date = 100,
                  d_end_date = 2000, d_is_active = True \<rparr>"])
    apply (rule exI[of _ "\<lparr> d_id = 1, d_from_user = 20, d_to_user = 31, d_start_date = 0,
                  d_end_date = 500, d_is_active = True \<rparr>"])
    by (simp add: createDelegation_def findUserById_def ex_db_short_delegation_def
        ex_delegation_input_def next_id_def active_at_def in_window_def Let_def ex_simps)
  show ?thesis by (rule conjI[OF 1 conjI[OF 2 3]])
qed


subsection \<open>Rejecting a step\<close>

text \<open>C4 fails on the code. User 31 is the active delegate of user 20, the direct
  approver of the only step of request 1, and holds neither the step's role nor an
  administrator role. \<open>approveStep\<close> accepts user 31; \<open>rejectStep\<close>, whose filter has
  no delegation clause, answers 403.\<close>

theorem C4_reject_refuses_delegate:
  "delegatorIds ex_db 31 1000 = [20] \<and>
   map s_approver_user (filter (\<lambda>s. s_approval_request_id s = 1) (db_steps ex_db)) = [Some 20] \<and>
   (case approveStep ex_db 1000 1 31 (Some ''ok'') of
      Inl e \<Rightarrow> False
    | Inr (d1, r1) \<Rightarrow> ar_currentStatus r1 = ''approved'') \<and>
   rejectStep ex_db 1000 1 31 (Some ''no'') = Inl (AppError 403)"
  by (simp add: rejectStep_def reject_actable_def approve_simps ex_simps)


subsection \<open>Cancelling a request\<close>

text \<open>C9 fails on the code. User 10 holds the role the seed creates with code
  \<open>super_admin\<close> and is not the requester of request 1, which is \<open>in_progress\<close>;
  \<open>cancelApproval\<close> compares the code with \<open>SUPER_ADMIN\<close> and answers 403.\<close>

theorem C9_cancel_refuses_super_admin:
  "map_option (roles_code ex_db) (findUserById ex_db 10) = Some (Some ''super_admin'') \<and>
   map_option (q_current_status \<circ> fst) (findRequestById ex_db 1) = Some ''in_progress'' \<and>
   cancelApproval ex_db 1000 1 10 = Inl (AppError 403)"
  by (simp add: cancelApproval_def approve_simps ex_simps)


subsection \<open>Escalation\<close>

lemmas escalation_simps = runEscalation_def activePending_def step_request_def
  escalation_iteration_def escalation_decide_def escalation_matrix_def
  resolveEscalationTarget_def resolveEscalationFallback_def escalate_update_def Let_def

text \<open>C5 fails on the code. At time 90000000 (25 hours after request 1 was created,
  with an SLA of 24 hours) step 1 is escalated. Its approver, user 20, has no manager;
  user 10 is an active \<open>super_admin\<close>; the fallback looks for the role code
  \<open>SUPER_ADMIN\<close>, finds no role, and the step is escalated to nobody.\<close>

theorem C5_escalation_misses_super_admin:
  "map u_id (filter (\<lambda>u. roles_code ex_db u = Some ''super_admin'' \<and> u_is_active u \<and>
                          u_deleted_at u = None) (db_users ex_db)) = [10] \<and>
   resolveEscalationTarget ex_db (Some 20) = None \<and>
   map (\<lambda>s. (s_id s, s_escalated s, s_escalated_to s))
     (db_steps (er_db (runEscalation (\<lambda>sid. False) ex_db 90000000))) =
     [(1, True, None), (2, False, None), (3, False, None), (4, False, None)]"
  by (simp add: escalation_simps roles_code_def roles_of_def ex_simps)

subsection \<open>Idempotency guard\<close>

lemma checkIdempotency_live:
  assumes "find (\<lambda>k. ik_key k = key) keys = Some existing"
    and "\<not> ik_expires_at existing < now"
  shows "checkIdempotency False keys now key userId route requestHash =
           (if ik_request_hash existing = requestHash
            then (keys, \<lparr> cr_conflict = False, cr_cached = ik_response_body existing \<rparr>)
            else (keys, \<lparr> cr_conflict = True, cr_cached = JNull \<rparr>))"
  using assms by (simp add: checkIdempotency_def)

lemma idempotent_verdict_live:
  assumes "find (\<lambda>k. ik_key k = key) keys = Some existing"
    and "\<not> ik_expires_at existing < now"
    and "key \<noteq> []"
  shows "idempotent_verdict digest False keys now (Some key) userId route body =
           (if ik_request_hash existing \<noteq> hashBody digest body then (keys, Respond_conflict)
            else if js_truthy (ik_response_body existing)
            then (keys, Respond_cached (ik_response_body existing))
            else (keys, Next_capturing key (hashBody digest body)))"
  using assms(3)
  by (simp add: idempotent_verdict_def or_null_def truthy_def Let_def
      checkIdempotency_live[OF assms(1,2)])

text \<open>The verdict reads neither the route nor the user.\<close>

lemma idempotent_verdict_ignores_route:
  "idempotent_verdict digest fails keys now idemKey userId route body =
   idempotent_verdict digest fails keys now idemKey userId' route' body"
proof -
  have c: "\<And>key h. checkIdempotency fails keys now key userId route h =
                     checkIdempotency fails keys now key userId' route' h"
    by (simp add: checkIdempotency_def)
  show ?thesis
    by (cases "or_null idemKey") (simp_all add: idempotent_verdict_def Let_def c)
qed

text \<open>The guard on a call with a non-empty key whose record exists and has not expired,
  over a store that answers: it answers with the cached body exactly when the digest
  of the request body alone equals the stored hash and the cached body is truthy, and
  answers 409 exactly when that digest differs; without a key it passes the call
  through and leaves the table alone; and on a replay or a conflict the controller
  does not run, whatever it is: the application state is the one before the call.\<close>

lemma idempotent_guard_live_record:
  assumes "find (\<lambda>k. ik_key k = key) keys = Some existing"
    and "\<not> ik_expires_at existing < now"
    and "key \<noteq> []"
  shows "((idempotent_verdict digest False keys now (Some key) userId route body =
             (keys, Respond_cached (ik_response_body existing))) =
          (hashBody digest body = ik_request_hash existing \<and>
           js_truthy (ik_response_body existing))) \<and>
         ((idempotent_verdict digest False keys now (Some key) userId route body =
             (keys, Respond_conflict)) =
          (hashBody digest body \<noteq> ik_request_hash existing)) \<and>
         idempotent_verdict digest fails keys now None userId route body = (keys, Next_plain) \<and>
         idempotent digest fails controller keys st now None userId route body requestId =
           (case controller st body of
              (st', status, out) \<Rightarrow>
                \<lparr> sv_keys = keys, sv_state = st', sv_status = status, sv_body = out \<rparr>) \<and>
         (hashBody digest body = ik_request_hash existing \<and>
          js_truthy (ik_response_body existing) \<longrightarrow>
            idempotent digest False controller keys st now (Some key) userId route body requestId =
              \<lparr> sv_keys = keys, sv_state = st, sv_status = 200,
                sv_body = ik_response_body existing \<rparr>) \<and>
         (hashBody digest body \<noteq> ik_request_hash existing \<longrightarrow>
            idempotent digest False controller keys st now (Some key) userId route body requestId =
              \<lparr> sv_keys = keys, sv_state = st, sv_status = 409,
                sv_body = conflict_body requestId \<rparr>)"
proof -
  note v = idempotent_verdict_live[OF assms, of digest userId route body]
  have n: "idempotent_verdict digest fails keys now None userId route body = (keys, Next_plain)"
    by (simp add: idempotent_verdict_def or_null_def truthy_def)
  have 1: "(idempotent_verdict digest False keys now (Some key) userId route body =
             (keys, Respond_cached (ik_response_body existing))) =
          (hashBody digest body = ik_request_hash existing \<and>
           js_truthy (ik_response_body existing))"
    unfolding v by auto
  have 2: "(idempotent_verdict digest False keys now (Some key) userId route body =
             (keys, Respond_conflict)) =
          (hashBody digest body \<noteq> ik_request_hash existing)"
    unfolding v by auto
  have 4: "idempotent digest fails controller keys st now None userId route body requestId =
           (case controller st body of
              (st', status, out) \<Rightarrow>
                \<lparr> sv_keys = keys, sv_state = st', sv_status = status, sv_body = out \<rparr>)"
    by (simp add: idempotent_def n)
  have 5: "hashBody digest body = ik_request_hash existing \<and>
          js_truthy (ik_response_body existing) \<longrightarrow>
            idempotent digest False controller keys st now (Some key) userId route body requestId =
              \<lparr> sv_keys = keys, sv_state = st, sv_status = 200,
                sv_body = ik_response_body existing \<rparr>"
    by (simp add: idempotent_def v)
  have 6: "hashBody digest body \<noteq> ik_request_hash existing \<longrightarrow>
            idempotent digest False controller keys st now (Some key) userId route body requestId =
              \<lparr> sv_keys = keys, sv_state = st, sv_status = 409,
                sv_body = conflict_body requestId \<rparr>"
    by (simp add: idempotent_def v)
  show ?thesis by (rule conjI[OF 1 conjI[OF 2 conjI[OF n conjI[OF 4 conjI[OF 5 6]]]]])
qed

lemmas ex_guard_simps = ex_keys_def ex_digest_def ex_response_def ex_controller_def hashBody_def

lemma idempotent_guard_live_record_example:
  "idempotent_verdict ex_digest False (ex_keys ex_digest) 1000 (Some ''k1'') (Some 30)
     ''/api/approvals/1/approve'' (Some ''{}'') =
     (ex_keys ex_digest, Respond_cached ex_response) \<and>
   idempotent_verdict ex_digest False (ex_keys ex_digest) 1000 (Some ''k1'') (Some 30)
     ''/api/approvals/1/approve'' (Some ''[1]'') =
     (ex_keys ex_digest, Respond_conflict) \<and>
   idempotent ex_digest False ex_controller (ex_keys ex_digest) 0 1000 (Some ''k1'') (Some 30)
     ''/api/approvals/1/approve'' (Some ''{}'') (Some ''r-1'') =
     \<lparr> sv_keys = ex_keys ex_digest, sv_state = 0, sv_status = 200, sv_body = ex_response \<rparr> \<and>
   idempotent ex_digest False ex_controller (ex_keys ex_digest) 0 1000 (Some ''k1'') (Some 30)
     ''/api/approvals/1/approve'' (Some ''[1]'') (Some ''r-1'') =
     \<lparr> sv_keys = ex_keys ex_digest, sv_state = 0, sv_status = 409,
       sv_body = conflict_body (Some ''r-1'') \<rparr> \<and>
   sv_state (idempotent ex_digest False ex_controller (ex_keys ex_digest) 0 1000 None (Some 30)
     ''/api/approvals/1/approve'' (Some ''{}'') (Some ''r-1'')) = 1"
proof -
  have f: "find (\<lambda>k. ik_key k = ''k1'') (ex_keys ex_digest) = Some (hd (ex_keys ex_digest))"
    by (simp add: ex_keys_def)
  have e: "\<not> ik_expires_at (hd (ex_keys ex_digest)) < 1000"
    by (simp add: ex_keys_def)
  have k: "''k1'' \<noteq> []" by simp
  have h: "hashBody ex_digest (Some ''{}'') = ik_request_hash (hd (ex_keys ex_digest))"
          "hashBody ex_digest (Some ''[1]'') \<noteq> ik_request_hash (hd (ex_keys ex_digest))"
          "js_truthy (ik_response_body (hd (ex_keys ex_digest)))"
          "ik_response_body (hd (ex_keys ex_digest)) = ex_response"
    by (simp_all add: ex_guard_simps)
  show ?thesis
    using idempotent_guard_live_record[OF f e k, of ex_digest "Some 30" "''/api/approvals/1/approve''"
            "Some ''{}''" False ex_controller 0 "Some ''r-1''"]
          idempotent_guard_live_record[OF f e k, of ex_digest "Some 30" "''/api/approvals/1/approve''"
            "Some ''[1]''" False ex_controller 0 "Some ''r-1''"]
          h
    by (simp add: ex_controller_def)
qed

text \<open>C3 fails on the code. The table holds the key \<open>k1\<close>, saved by user 30 for the
  route \<open>/api/approvals/1/approve\<close> with the body \<open>{}\<close>. A call with the same key
  and body arrives on the route \<open>/api/approvals/2/approve\<close>, from user 30 or from
  anyone else. Under every digest the guard answers 200 with the response cached for
  the other route, and the controller does not run, although the fingerprint of the
  pair (route, body) is not the stored one (shown with the stand-in digest), the
  case the specification rejects with 409. The guard's own description names the
  lookup as one by key, user, route and body hash; \<open>checkIdempotency\<close> takes the
  user and the route and reads neither.\<close>

theorem C3_replays_other_route_and_user:
  "(\<forall>digest userId.
      idempotent digest False ex_controller (ex_keys digest) 0 1000 (Some ''k1'') userId
        ''/api/approvals/2/approve'' (Some ''{}'') None =
        \<lparr> sv_keys = ex_keys digest, sv_state = 0, sv_status = 200, sv_body = ex_response \<rparr>) \<and>
   (\<forall>digest. map (\<lambda>k. (ik_key k, ik_user_id k, ik_route k)) (ex_keys digest) =
       [(''k1'', Some 30, ''/api/approvals/1/approve'')]) \<and>
   fingerprint_route_body ex_digest ''/api/approvals/2/approve'' (Some ''{}'') \<noteq>
     ik_request_hash (hd (ex_keys ex_digest))"
  by (simp add: idempotent_def idempotent_verdict_def checkIdempotency_def
      fingerprint_route_body_def or_null_def truthy_def Let_def ex_keys_def ex_digest_def
      ex_response_def hashBody_def)

end
